theory Spec2Isabelle
  imports Main "HOL-Library.Sublist" "HOL-Library.AList"
begin

section \<open>Outcomes of a call\<close>

text \<open>
  A Go function of this package either returns normally, returns a non-nil \<open>error\<close>, or
  aborts the goroutine with a run-time panic.  The three are kept apart, since the caller can
  only record the second.
\<close>

datatype panic = IndexOutOfRange | NilPointerDereference

datatype error =
    TypeAssertionFailed
  | UnsupportedPlaceholder
  | CannotParseFloat string
  | TransportError string
  | FormatNotSupported string
  | Wrap string error

datatype 'a result = Ok 'a | Err error | Panic panic

section \<open>Integers, digits and their text\<close>

text \<open>Go's \<open>int\<close> and \<open>int64\<close> are 64 bits wide here; arithmetic wraps around.\<close>

definition wrap64 :: "int \<Rightarrow> int" where
  "wrap64 x = (x + 2 ^ 63) mod 2 ^ 64 - 2 ^ 63"

definition is_digit :: "char \<Rightarrow> bool" where
  "is_digit c \<longleftrightarrow> (let n = (of_char c :: int) in 48 \<le> n \<and> n \<le> 57)"

definition is_letter :: "char \<Rightarrow> bool" where
  "is_letter c \<longleftrightarrow> (let n = (of_char c :: int) in (65 \<le> n \<and> n \<le> 90) \<or> (97 \<le> n \<and> n \<le> 122))"

text \<open>The class \<open>\w\<close> of Go's regexp syntax: ASCII letters, digits and the underscore.\<close>

definition is_word :: "char \<Rightarrow> bool" where
  "is_word c \<longleftrightarrow> is_digit c \<or> is_letter c \<or> c = CHR ''_''"

definition digit_val :: "char \<Rightarrow> int" where
  "digit_val c = of_char c - 48"

definition digits_val :: "string \<Rightarrow> int" where
  "digits_val ds = foldl (\<lambda>n c. 10 * n + digit_val c) 0 ds"

text \<open>
  \<open>strconv.Atoi\<close>, the value only (every caller here drops the error): an optional sign
  and decimal digits; \<open>0\<close> for anything else; the nearest bound of \<open>int\<close> when the number
  does not fit.
\<close>

definition Atoi :: "string \<Rightarrow> int" where
  "Atoi s =
     (let neg = (s \<noteq> [] \<and> hd s = CHR ''-'');
          ds = (if s \<noteq> [] \<and> (hd s = CHR ''-'' \<or> hd s = CHR ''+'') then tl s else s)
      in if ds = [] \<or> \<not> list_all is_digit ds then 0
         else let n = digits_val ds
              in if neg then (if n > 2 ^ 63 then - (2 ^ 63) else - n)
                 else (if n > 2 ^ 63 - 1 then 2 ^ 63 - 1 else n))"

definition digit_char :: "int \<Rightarrow> char" where
  "digit_char n = char_of (48 + n)"

function dec_digits :: "int \<Rightarrow> string" where
  "dec_digits n = (if n < 10 then [digit_char n] else dec_digits (n div 10) @ [digit_char (n mod 10)])"
  by pat_completeness auto
termination
  by (relation "measure nat") auto

declare dec_digits.simps [simp del]

text \<open>The verb \<open>%d\<close> of \<open>fmt.Sprintf\<close> on an integer.\<close>

definition Itoa :: "int \<Rightarrow> string" where
  "Itoa i = (if i < 0 then CHR ''-'' # dec_digits (- i) else dec_digits i)"

text \<open>
  The conversion \<open>string(i)\<close> of an integer: the UTF-8 encoding of the code point \<open>i\<close>,
  and of U+FFFD when \<open>i\<close> is no valid code point.
\<close>

definition utf8_encode :: "int \<Rightarrow> string" where
  "utf8_encode r =
     (if r < 128 then [char_of r]
      else if r < 2048 then [char_of (192 + r div 64), char_of (128 + r mod 64)]
      else if r < 65536 then
        [char_of (224 + r div 4096), char_of (128 + r div 64 mod 64), char_of (128 + r mod 64)]
      else [char_of (240 + r div 262144), char_of (128 + r div 4096 mod 64),
            char_of (128 + r div 64 mod 64), char_of (128 + r mod 64)])"

definition string_of_int :: "int \<Rightarrow> string" where
  "string_of_int i =
     (if i < 0 \<or> 1114111 < i \<or> (55296 \<le> i \<and> i \<le> 57343) then utf8_encode 65533
      else utf8_encode i)"

section \<open>The regular expressions of the package\<close>

text \<open>
  Every pattern compiled in this package is a sequence of quantified character classes,
  possibly anchored, with capture groups around single pieces:
  \<^verbatim>\<open>\$\w*\<close>, \<^verbatim>\<open>\$timeSeries\<close>, \<^verbatim>\<open>\$table\<close>, \<^verbatim>\<open>\$interval\<close>, \<^verbatim>\<open>\$timeFilter\<close>
  and \<^verbatim>\<open>^(\d+)(\w+)$\<close>.
\<close>

datatype cclass = Lit char | Digit | Word

datatype quant = Once | Star | Plus

datatype piece = Piece cclass quant bool

record regexp =
  bol :: bool
  pieces :: "piece list"
  eol :: bool

fun accepts :: "cclass \<Rightarrow> char \<Rightarrow> bool" where
  "accepts (Lit a) c = (c = a)"
| "accepts Digit c = is_digit c"
| "accepts Word c = is_word c"

primrec first_some :: "('a \<Rightarrow> 'b option) \<Rightarrow> 'a list \<Rightarrow> 'b option" where
  "first_some f [] = None"
| "first_some f (k # ks) = (case f k of None \<Rightarrow> first_some f ks | Some r \<Rightarrow> Some r)"

text \<open>The repetition counts a piece may take at the head of \<open>s\<close>, the preferred one first
  (the quantifiers are greedy).\<close>

fun counts :: "piece \<Rightarrow> string \<Rightarrow> nat list" where
  "counts (Piece c Once g) s = (if s \<noteq> [] \<and> accepts c (hd s) then [1] else [])"
| "counts (Piece c Star g) s = rev [0 ..< Suc (length (takeWhile (accepts c) s))]"
| "counts (Piece c Plus g) s = rev [1 ..< Suc (length (takeWhile (accepts c) s))]"

text \<open>
  \<open>run ps e s\<close> matches the pieces \<open>ps\<close> at the beginning of \<open>s\<close>, up to the end of \<open>s\<close> when
  \<open>e\<close> holds, and gives the length each piece consumed in the match that a backtracking
  (leftmost-first) search finds first, which is the match Go reports.
\<close>

primrec run :: "piece list \<Rightarrow> bool \<Rightarrow> string \<Rightarrow> nat list option" where
  "run [] e s = (if e \<and> s \<noteq> [] then None else Some [])"
| "run (p # ps) e s =
     first_some (\<lambda>k. map_option (Cons k) (run ps e (drop k s))) (counts p s)"

text \<open>The texts of the whole match and of each capture group.\<close>

fun group_texts :: "piece list \<Rightarrow> nat list \<Rightarrow> string \<Rightarrow> string list" where
  "group_texts (Piece c q g # ps) (k # ks) s =
     (if g then take k s # group_texts ps ks (drop k s) else group_texts ps ks (drop k s))"
| "group_texts ps ks s = []"

definition submatches :: "piece list \<Rightarrow> nat list \<Rightarrow> string \<Rightarrow> string list" where
  "submatches ps ks s = take (sum_list ks) s # group_texts ps ks s"

text \<open>
  A left-to-right scan for successive matches: \<open>Inl c\<close> is a character outside every match,
  \<open>Inr m\<close> the submatches of a match.  A match of the empty string is passed over; no
  pattern of this package has one.
\<close>

function segments :: "piece list \<Rightarrow> bool \<Rightarrow> string \<Rightarrow> (char + string list) list" where
  "segments ps e [] = []"
| "segments ps e (c # cs) =
     (case run ps e (c # cs) of
        None \<Rightarrow> Inl c # segments ps e cs
      | Some ks \<Rightarrow>
          if sum_list ks = 0 then Inl c # segments ps e cs
          else Inr (submatches ps ks (c # cs)) # segments ps e (drop (sum_list ks - 1) cs))"
  by pat_completeness auto
termination
  by (relation "measure (\<lambda>(ps, e, s). length s)") auto

text \<open>\<open>(*Regexp).MatchString\<close>.\<close>

fun match_somewhere :: "piece list \<Rightarrow> bool \<Rightarrow> string \<Rightarrow> bool" where
  "match_somewhere ps e [] = (run ps e [] \<noteq> None)"
| "match_somewhere ps e (c # cs) = (run ps e (c # cs) \<noteq> None \<or> match_somewhere ps e cs)"

definition MatchString :: "regexp \<Rightarrow> string \<Rightarrow> bool" where
  "MatchString re s =
     (if bol re then run (pieces re) (eol re) s \<noteq> None else match_somewhere (pieces re) (eol re) s)"

text \<open>
  \<open>(*Regexp).FindAllStringSubmatch(s, -1)\<close>.  A pattern anchored with \<^verbatim>\<open>^\<close> can match at
  offset 0 only, so it has at most one match.
\<close>

definition FindAllStringSubmatch :: "regexp \<Rightarrow> string \<Rightarrow> string list list" where
  "FindAllStringSubmatch re s =
     (if bol re then
        (case run (pieces re) (eol re) s of
           None \<Rightarrow> []
         | Some ks \<Rightarrow> [submatches (pieces re) ks s])
      else [m. Inr m \<leftarrow> segments (pieces re) (eol re) s])"

text \<open>
  The name that follows a \<^verbatim>\<open>$\<close> in a replacement template: \<^verbatim>\<open>name\<close> or \<^verbatim>\<open>{name}\<close>, made of
  letters, digits and underscores.  Go also admits the letters and digits of Unicode beyond
  ASCII in a name; a template with such a byte right after a \<^verbatim>\<open>$\<close> is outside this model.
\<close>

definition template_name :: "string \<Rightarrow> (string \<times> string) option" where
  "template_name str =
     (let brace = (str \<noteq> [] \<and> hd str = CHR ''{'');
          str1 = (if brace then tl str else str);
          name = takeWhile is_word str1;
          rest = dropWhile is_word str1
      in if name = [] then None
         else if brace then (if rest \<noteq> [] \<and> hd rest = CHR ''}'' then Some (name, tl rest) else None)
         else Some (name, rest))"

text \<open>A numbered group that exists gives its text; any other name (there are no named
  groups) gives the empty string.\<close>

definition group_value :: "string list \<Rightarrow> string \<Rightarrow> string" where
  "group_value gs name =
     (if list_all is_digit name \<and> \<not> (hd name = CHR ''0'' \<and> 1 < length name)
         \<and> nat (digits_val name) < length gs
      then gs ! nat (digits_val name) else [])"

lemma template_name_shorter: "template_name t = Some (name, rest) \<Longrightarrow> length rest \<le> length t"
proof -
  have d: "length (dropWhile is_word u) \<le> length u" for u
    by (rule length_dropWhile_le)
  have tl_le: "length (tl u) \<le> length u" for u :: string
    by simp
  assume "template_name t = Some (name, rest)"
  then consider "rest = dropWhile is_word t" | "rest = tl (dropWhile is_word (tl t))"
    by (auto simp: template_name_def Let_def split: if_splits)
  then show ?thesis
  proof cases
    case 1
    then show ?thesis using d [of t] by simp
  next
    case 2
    have "length rest \<le> length (dropWhile is_word (tl t))"
      unfolding 2 by (rule tl_le)
    also have "\<dots> \<le> length (tl t)" by (rule d)
    also have "\<dots> \<le> length t" by (rule tl_le)
    finally show ?thesis .
  qed
qed

text \<open>\<open>(*Regexp).expand\<close>: the replacement text for one match with submatches \<open>gs\<close>.\<close>

function expand :: "string list \<Rightarrow> string \<Rightarrow> string" where
  "expand gs [] = []"
| "expand gs (c # t) =
     (if c \<noteq> CHR ''$'' then c # expand gs t
      else if t \<noteq> [] \<and> hd t = CHR ''$'' then CHR ''$'' # expand gs (tl t)
      else (case template_name t of
              None \<Rightarrow> CHR ''$'' # expand gs t
            | Some (name, rest) \<Rightarrow> group_value gs name @ expand gs rest))"
  by pat_completeness auto
termination
proof (relation "measure (\<lambda>(gs, t). length t)")
  show "wf (measure (\<lambda>(gs, t). length t))"
    by simp
qed (auto dest: template_name_shorter)

text \<open>\<open>(*Regexp).ReplaceAllString\<close>.\<close>

definition ReplaceAllString :: "regexp \<Rightarrow> string \<Rightarrow> string \<Rightarrow> string" where
  "ReplaceAllString re src repl =
     concat (map (\<lambda>seg. case seg of Inl c \<Rightarrow> [c] | Inr m \<Rightarrow> expand m repl)
                 (segments (pieces re) (eol re) src))"

definition literal :: "string \<Rightarrow> regexp" where
  "literal s = \<lparr>bol = False, pieces = map (\<lambda>c. Piece (Lit c) Once False) s, eol = False\<rparr>"

section \<open>Strings\<close>

text \<open>
  \<open>strings.TrimSpace\<close> removes the white space of Unicode from both ends.  Strings are
  byte sequences in UTF-8, so each white-space code point is listed with its encoding.
\<close>

definition white_space :: "string list" where
  "white_space = map (map char_of)
     [[9::int], [10], [11], [12], [13], [32], [194, 133], [194, 160], [225, 154, 128],
      [226, 128, 128], [226, 128, 129], [226, 128, 130], [226, 128, 131], [226, 128, 132],
      [226, 128, 133], [226, 128, 134], [226, 128, 135], [226, 128, 136], [226, 128, 137],
      [226, 128, 138], [226, 128, 168], [226, 128, 169], [226, 128, 175], [226, 129, 159],
      [227, 128, 128]]"

function drop_leading :: "string list \<Rightarrow> string \<Rightarrow> string" where
  "drop_leading ws s =
     (case find (\<lambda>w. w \<noteq> [] \<and> prefix w s) ws of
        None \<Rightarrow> s
      | Some w \<Rightarrow> drop_leading ws (drop (length w) s))"
  by pat_completeness auto
termination
proof (relation "measure (\<lambda>(ws, s). length s)")
  show "wf (measure (\<lambda>(ws, s). length s))"
    by simp
next
  fix ws :: "string list" and s w :: string
  assume "find (\<lambda>w. w \<noteq> [] \<and> prefix w s) ws = Some w"
  then have "w \<noteq> []" and "prefix w s"
    by (auto simp: find_Some_iff)
  then have "s \<noteq> []"
    by auto
  with \<open>w \<noteq> []\<close> show "((ws, drop (length w) s), (ws, s)) \<in> measure (\<lambda>(ws, s). length s)"
    by simp
qed

declare drop_leading.simps [simp del]

definition TrimSpace :: "string \<Rightarrow> string" where
  "TrimSpace s = rev (drop_leading (map rev white_space) (rev (drop_leading white_space s)))"

text \<open>\<open>strings.Split\<close> with a separator of one byte.\<close>

fun Split :: "string \<Rightarrow> char \<Rightarrow> string list" where
  "Split [] sep = [[]]"
| "Split (c # cs) sep =
     (if c = sep then [] # Split cs sep
      else (case Split cs sep of [] \<Rightarrow> [[c]] | x # xs \<Rightarrow> (c # x) # xs))"

section \<open>The query model\<close>

text \<open>
  The JSON document of one panel query, read through \<open>simplejson\<close>.  A field is \<open>None\<close>
  when the key is absent or its value has another type than the one asked for, which is when
  \<open>String()\<close> or \<open>Int()\<close> return an error (and the zero value); \<open>get_k\<close> stands for
  \<open>model.Get("k")\<close>.
\<close>

record Json =
  get_query :: "string option"
  get_table :: "string option"
  get_database :: "string option"
  get_dateTimeColDataType :: "string option"
  get_dateColDataType :: "string option"
  get_dateTimeType :: "string option"
  get_interval :: "string option"
  get_intervalFactor :: "int option"
  get_format :: "string option"

definition String_or_zero :: "string option \<Rightarrow> string" where
  "String_or_zero f = (case f of None \<Rightarrow> [] | Some s \<Rightarrow> s)"

text \<open>\<open>tsdb.TimeRange\<close>, passed by pointer (\<open>None\<close> is nil).\<close>

record TimeRange =
  From :: string
  To :: string

section \<open>query\_parser.go\<close>

definition intervalSteps :: "string \<Rightarrow> int" where
  "intervalSteps k =
     (if k = ''s'' then 1 else if k = ''m'' then 60 else if k = ''h'' then 3600
      else if k = ''d'' then 86400 else 0)"

definition re_interval_expr :: regexp where
  "re_interval_expr = \<lparr>bol = True, pieces = [Piece Digit Plus True, Piece Word Plus True], eol = True\<rparr>"

definition IntervalToSeconds :: "string \<Rightarrow> int result" where
  "IntervalToSeconds intervalStr =
     (if intervalStr = [] then Ok 1
      else let matches = FindAllStringSubmatch re_interval_expr intervalStr
           in case matches of
                [] \<Rightarrow> Panic IndexOutOfRange
              | m0 # _ \<Rightarrow>
                  if length m0 = 3 then
                    (let value = Atoi (m0 ! 1); step = intervalSteps (m0 ! 2)
                     in if value > 0 \<and> step > 0 then Ok (wrap64 (value * step)) else Ok 1)
                  else Ok 1)"

definition GetInterval :: "Json \<Rightarrow> int result" where
  "GetInterval model =
     (let intervalFactor = (case get_intervalFactor model of None \<Rightarrow> 1 | Some n \<Rightarrow> n);
          intervalStr = String_or_zero (get_interval model)
      in case IntervalToSeconds intervalStr of
           Ok secs \<Rightarrow> Ok (wrap64 (intervalFactor * secs))
         | Err e \<Rightarrow> Err e
         | Panic p \<Rightarrow> Panic p)"

definition GetDateTimeColumn :: "Json \<Rightarrow> (string \<times> string) result" where
  "GetDateTimeColumn model =
     (let dateTimeColumnName = String_or_zero (get_dateTimeColDataType model);
          dateColumnName = String_or_zero (get_dateColDataType model)
      in if get_dateTimeColDataType model = None \<and> get_dateColDataType model = None
         then Err TypeAssertionFailed
         else let dateTimeType = (case get_dateTimeType model of None \<Rightarrow> ''DATETIME'' | Some t \<Rightarrow> t)
              in if dateTimeColumnName = [] then Ok (dateColumnName, ''DATE'')
                 else Ok (dateTimeColumnName, dateTimeType))"

definition ParseInterval :: "string \<Rightarrow> Json \<Rightarrow> string result" where
  "ParseInterval query model =
     (let reg = literal ''$interval''
      in if \<not> MatchString reg query then Ok query
         else (case GetInterval model of
                 Ok i \<Rightarrow> Ok (ReplaceAllString reg query (string_of_int i))
               | Err e \<Rightarrow> Err e
               | Panic p \<Rightarrow> Panic p))"

definition ParseTimeSeries :: "string \<Rightarrow> Json \<Rightarrow> string result" where
  "ParseTimeSeries query model =
     (let reg = literal ''$timeSeries''
      in if \<not> MatchString reg query then Ok query
         else (case GetDateTimeColumn model of
                 Err e \<Rightarrow> Err e
               | Panic p \<Rightarrow> Panic p
               | Ok (dateTimeColumnName, dateTimeType) \<Rightarrow>
                   (case GetInterval model of
                      Err e \<Rightarrow> Err e
                    | Panic p \<Rightarrow> Panic p
                    | Ok i \<Rightarrow>
                        let timeSeries =
                          (if dateTimeType = ''DATETIME''
                           then ''(intDiv(toUInt32('' @ dateTimeColumnName @ ''), '' @ Itoa i
                                  @ '') * '' @ Itoa i @ '') * 1000''
                           else ''(intDiv('' @ dateTimeColumnName @ '', '' @ Itoa i
                                  @ '') * '' @ Itoa i @ '') * 1000'')
                        in Ok (ReplaceAllString reg query timeSeries))))"

definition ParseTable :: "string \<Rightarrow> Json \<Rightarrow> string result" where
  "ParseTable query model =
     (let reg = literal ''$table''
      in if \<not> MatchString reg query then Ok query
         else (case get_table model of
                 None \<Rightarrow> Ok query
               | Some tbl \<Rightarrow>
                   let db = (case get_database model of None \<Rightarrow> ''default'' | Some d \<Rightarrow> d)
                   in Ok (ReplaceAllString reg query (db @ ''.'' @ tbl))))"

text \<open>\<open>now\<close> is what \<open>time.Now().Unix()\<close> returns during the call.\<close>

definition GetTimeRangeAsTimestamps :: "int \<Rightarrow> TimeRange \<Rightarrow> bool \<Rightarrow> (string \<times> string) result" where
  "GetTimeRangeAsTimestamps now timeRange isDateTime =
     (case IntervalToSeconds (From timeRange) of
        Err e \<Rightarrow> Err e
      | Panic p \<Rightarrow> Panic p
      | Ok fromSecs \<Rightarrow>
          let from = wrap64 (now - fromSecs);
              matches = Split (To timeRange) CHR ''-'';
              to_result = (if length matches > 1
                           then (case IntervalToSeconds (To timeRange) of
                                   Ok toSecs \<Rightarrow> Ok (wrap64 (now - toSecs))
                                 | Err e \<Rightarrow> Err e
                                 | Panic p \<Rightarrow> Panic p)
                           else Ok now)
          in case to_result of
               Err e \<Rightarrow> Err e
             | Panic p \<Rightarrow> Panic p
             | Ok to \<Rightarrow>
                 if \<not> isDateTime
                 then Ok (''toDate('' @ Itoa from @ '')'', ''toDate('' @ Itoa to @ '')'')
                 else Ok (Itoa from, Itoa to))"

definition ParseTimeFilter :: "int \<Rightarrow> string \<Rightarrow> Json \<Rightarrow> TimeRange option \<Rightarrow> string result" where
  "ParseTimeFilter now query model timeRange =
     (let reg = literal ''$timeFilter''
      in if \<not> MatchString reg query then Ok query
         else (case GetDateTimeColumn model of
                 Err e \<Rightarrow> Err e
               | Panic p \<Rightarrow> Panic p
               | Ok (dateTimeColumnName, dateTimeType) \<Rightarrow>
                   (case timeRange of
                      None \<Rightarrow> Panic NilPointerDereference
                    | Some tr \<Rightarrow>
                        (case GetTimeRangeAsTimestamps now tr (dateTimeType = ''DATETIME'') of
                           Err e \<Rightarrow> Err e
                         | Panic p \<Rightarrow> Panic p
                         | Ok (from, to) \<Rightarrow>
                             let result =
                               (if To tr = ''now'' then dateTimeColumnName @ '' >= '' @ from
                                else dateTimeColumnName @ '' BETWEEN '' @ from @ '' AND '' @ to)
                             in Ok (ReplaceAllString reg query result)))))"

text \<open>The four substitutions of \<open>Parse\<close>, in its order, on the trimmed query text.\<close>

definition substitutions :: "int \<Rightarrow> string \<Rightarrow> Json \<Rightarrow> TimeRange option \<Rightarrow> string result" where
  "substitutions now query model timeRange =
     (case ParseInterval (TrimSpace query) model of
        Err e \<Rightarrow> Err e
      | Panic p \<Rightarrow> Panic p
      | Ok q1 \<Rightarrow>
          (case ParseTimeSeries q1 model of
             Err e \<Rightarrow> Err e
           | Panic p \<Rightarrow> Panic p
           | Ok q2 \<Rightarrow>
               (case ParseTable q2 model of
                  Err e \<Rightarrow> Err e
                | Panic p \<Rightarrow> Panic p
                | Ok q3 \<Rightarrow> ParseTimeFilter now q3 model timeRange)))"

definition re_placeholder :: regexp where
  "re_placeholder = \<lparr>bol = False, pieces = [Piece (Lit CHR ''$'') Once False, Piece Word Star False], eol = False\<rparr>"

definition Parse :: "int \<Rightarrow> Json \<Rightarrow> TimeRange option \<Rightarrow> string result" where
  "Parse now model timeRange =
     (case get_query model of
        None \<Rightarrow> Err TypeAssertionFailed
      | Some q \<Rightarrow>
          (case substitutions now q model timeRange of
             Err e \<Rightarrow> Err e
           | Panic p \<Rightarrow> Panic p
           | Ok formattedQuery \<Rightarrow>
               if MatchString re_placeholder formattedQuery then Err UnsupportedPlaceholder
               else Ok formattedQuery))"

section \<open>What the package calls outside itself\<close>

text \<open>
  The floating-point numbers of Go, their parser and printer, the clock arithmetic of
  \<open>tsdb.TimeRange\<close> and the HTTP round trip are not code of this package.  They are
  parameters of the model, and every theorem holds whatever they do:
  \<^item> \<open>ParseFloat s\<close> is \<open>strconv.ParseFloat(s, 64)\<close>, \<open>None\<close> when it returns an error;
  \<^item> \<open>FormatFloat x\<close> is what \<open>fmt.Sprint\<close> prints for the \<open>float64\<close> \<open>x\<close>;
  \<^item> \<open>float64 i\<close> converts an \<open>int64\<close>, and \<open>float_less\<close> is \<open><\<close> on \<open>float64\<close>;
  \<^item> \<open>GetFromAsMsEpoch\<close> and \<open>GetToAsMsEpoch\<close> are the methods of \<open>tsdb.TimeRange\<close>;
  \<^item> \<open>fetch q\<close> is the HTTP GET with query parameter \<open>q\<close>, the reading of the body and its
    decoding by \<open>json.Unmarshal\<close>: the decoded response, or the wrapped error of the step
    that failed.
\<close>

datatype 'f jvalue = JNull | JBool bool | JNumber 'f | JString string

record column =
  Name :: string
  Type :: string

text \<open>
  A row is a Go map from column names to decoded JSON scalars, kept as an association list;
  \<open>range\<close> visits its entries in the order of the list.  Go leaves that order open: the
  theorems below hold for every list, and \<open>buildSeries\<close> is shown not to depend on the order
  of the entries.
\<close>

type_synonym 'f row = "(string \<times> 'f jvalue) list"

record 'f clickhouseResponse =
  Meta :: "column list"
  Data :: "'f row list"
  Rows :: int

record 'f extern =
  ParseFloat :: "string \<Rightarrow> 'f option"
  FormatFloat :: "'f \<Rightarrow> string"
  float64 :: "int \<Rightarrow> 'f"
  float_less :: "'f \<Rightarrow> 'f \<Rightarrow> bool"
  GetFromAsMsEpoch :: "TimeRange \<Rightarrow> int"
  GetToAsMsEpoch :: "TimeRange \<Rightarrow> int"
  fetch :: "string \<Rightarrow> error + 'f clickhouseResponse"

text \<open>\<open>fmt.Sprint\<close> of one decoded value; a nil interface prints as \<^verbatim>\<open><nil>\<close>.\<close>

fun Sprint :: "'f extern \<Rightarrow> 'f jvalue \<Rightarrow> string" where
  "Sprint E JNull = ''<nil>''"
| "Sprint E (JBool b) = (if b then ''true'' else ''false'')"
| "Sprint E (JNumber x) = FormatFloat E x"
| "Sprint E (JString s) = s"

text \<open>\<open>row[name]\<close>: the nil interface when the key is missing.\<close>

definition index_row :: "'f row \<Rightarrow> string \<Rightarrow> 'f jvalue" where
  "index_row row name = (case map_of row name of None \<Rightarrow> JNull | Some v \<Rightarrow> v)"

section \<open>clickhouse.go\<close>

text \<open>\<open>tsdb.TimePoint\<close> is the pair of the value and the timestamp; \<open>tsdb.TimeSeries\<close>
  has a name and its points.\<close>

type_synonym 'f TimePoint = "'f \<times> 'f"

record 'f TimeSeries =
  SeriesName :: string
  Points :: "'f TimePoint list"

text \<open>The map \<open>points\<close>, in the order in which its keys were first written;
  \<open>points[k]\<close> of a missing key is the nil slice.\<close>

type_synonym 'f points_map = "(string \<times> 'f TimePoint list) list"

definition index_points :: "'f points_map \<Rightarrow> string \<Rightarrow> 'f TimePoint list" where
  "index_points points k = (case map_of points k of None \<Rightarrow> [] | Some ps \<Rightarrow> ps)"

text \<open>The body of the loop over \<open>responseJson.Meta\<close> (lines 130 to 140).\<close>

definition name_step ::
  "'f extern \<Rightarrow> string \<Rightarrow> 'f row \<Rightarrow> column \<Rightarrow> string set \<times> string \<Rightarrow> string set \<times> string" where
  "name_step E timeColumnName row meta acc =
     (let stringColumns = fst acc; seriesName = snd acc
      in if Name meta = timeColumnName then acc
         else let columnValue = Sprint E (index_row row (Name meta))
              in case ParseFloat E columnValue of
                   None \<Rightarrow> (insert (Name meta) stringColumns, seriesName @ ''.'' @ columnValue)
                 | Some v \<Rightarrow> acc)"

text \<open>The loop itself: the set \<open>stringColumns\<close> and the text \<open>seriesName\<close> of a row.\<close>

definition name_loop :: "'f extern \<Rightarrow> string \<Rightarrow> 'f row \<Rightarrow> column list \<Rightarrow> string set \<times> string" where
  "name_loop E timeColumnName row metas = fold (name_step E timeColumnName row) metas ({}, [])"

text \<open>The body of the loop over the entries of the row (lines 143 to 155).\<close>

definition point_step ::
  "'f extern \<Rightarrow> string \<Rightarrow> string set \<Rightarrow> string \<Rightarrow> 'f \<Rightarrow> string \<times> 'f jvalue
     \<Rightarrow> 'f points_map \<Rightarrow> 'f points_map" where
  "point_step E timeColumnName stringColumns seriesName time entry points =
     (let columnName = fst entry; columnValue = snd entry
      in if columnName = timeColumnName \<or> columnName \<in> stringColumns then points
         else case ParseFloat E (Sprint E columnValue) of
                None \<Rightarrow> points
              | Some value \<Rightarrow>
                  let fullSeriesName = seriesName @ ''.'' @ columnName
                  in AList.update fullSeriesName (index_points points fullSeriesName @ [(value, time)])
                       points)"

text \<open>The condition of line 123, under which a row is passed over.\<close>

definition out_of_range :: "'f extern \<Rightarrow> TimeRange option \<Rightarrow> 'f \<Rightarrow> bool" where
  "out_of_range E timeRange time =
     (case timeRange of
        None \<Rightarrow> False
      | Some tr \<Rightarrow> float_less E time (float64 E (GetFromAsMsEpoch E tr))
                   \<or> float_less E (float64 E (GetToAsMsEpoch E tr)) time)"

text \<open>The body of the loop over \<open>responseJson.Data\<close> (lines 117 to 155).\<close>

definition row_step ::
  "'f extern \<Rightarrow> TimeRange option \<Rightarrow> string \<Rightarrow> column list \<Rightarrow> 'f row \<Rightarrow> 'f points_map
     \<Rightarrow> 'f points_map result" where
  "row_step E timeRange timeColumnName metas row points =
     (let timeString = Sprint E (index_row row timeColumnName)
      in case ParseFloat E timeString of
           None \<Rightarrow> Err (CannotParseFloat timeString)
         | Some time \<Rightarrow>
             if out_of_range E timeRange time then Ok points
             else let acc = name_loop E timeColumnName row metas
                  in Ok (fold (point_step E timeColumnName (fst acc) (snd acc) time) row points))"

fun rows_loop ::
  "'f extern \<Rightarrow> TimeRange option \<Rightarrow> string \<Rightarrow> column list \<Rightarrow> 'f row list \<Rightarrow> 'f points_map
     \<Rightarrow> 'f points_map result" where
  "rows_loop E timeRange timeColumnName metas [] points = Ok points"
| "rows_loop E timeRange timeColumnName metas (row # rows) points =
     (case row_step E timeRange timeColumnName metas row points of
        Err e \<Rightarrow> Err e
      | Panic p \<Rightarrow> Panic p
      | Ok points' \<Rightarrow> rows_loop E timeRange timeColumnName metas rows points')"

text \<open>
  The slice returned lists the keys of \<open>points\<close> in the order of their first use here; Go
  leaves the order of that last loop open, so only the set of series is determined.
\<close>

definition buildSeries ::
  "'f extern \<Rightarrow> 'f clickhouseResponse \<Rightarrow> TimeRange option \<Rightarrow> 'f TimeSeries list result" where
  "buildSeries E responseJson timeRange =
     (case Meta responseJson of
        [] \<Rightarrow> Panic IndexOutOfRange
      | meta0 # _ \<Rightarrow>
          (case rows_loop E timeRange (Name meta0) (Meta responseJson) (Data responseJson) [] of
             Err e \<Rightarrow> Err e
           | Panic p \<Rightarrow> Panic p
           | Ok points \<Rightarrow>
               Ok (map (\<lambda>(metric, values). \<lparr>SeriesName = metric, Points = values\<rparr>) points)))"

record tsdb_Query =
  RefId :: string
  Model :: Json

record 'f QueryResult =
  Error :: "error option"
  Series :: "'f TimeSeries list"

definition executeQuery ::
  "'f extern \<Rightarrow> int \<Rightarrow> tsdb_Query \<Rightarrow> TimeRange option \<Rightarrow> 'f QueryResult result" where
  "executeQuery E now query timeRange =
     (case Parse now (Model query) timeRange of
        Panic p \<Rightarrow> Panic p
      | Err e \<Rightarrow> Ok \<lparr>Error = Some (Wrap ''Cannot get raw query'' e), Series = []\<rparr>
      | Ok queryString \<Rightarrow>
          (case fetch E (queryString @ '' FORMAT JSON'') of
             Inl e \<Rightarrow> Ok \<lparr>Error = Some e, Series = []\<rparr>
           | Inr clickhouseResponse \<Rightarrow>
               let fmt = (case get_format (Model query) of None \<Rightarrow> ''time_series'' | Some f \<Rightarrow> f)
               in if fmt = ''time_series'' then
                    (case buildSeries E clickhouseResponse timeRange of
                       Panic p \<Rightarrow> Panic p
                     | Err e \<Rightarrow> Ok \<lparr>Error = Some e, Series = []\<rparr>
                     | Ok series \<Rightarrow> Ok \<lparr>Error = None, Series = series\<rparr>)
                  else Ok \<lparr>Error = Some (FormatNotSupported fmt), Series = []\<rparr>))"

record tsdb_TsdbQuery =
  TimeRange :: "TimeRange option"
  Queries :: "tsdb_Query list"

fun Query_loop ::
  "'f extern \<Rightarrow> int \<Rightarrow> TimeRange option \<Rightarrow> tsdb_Query list \<Rightarrow> (string \<rightharpoonup> 'f QueryResult)
     \<Rightarrow> (string \<rightharpoonup> 'f QueryResult) result" where
  "Query_loop E now timeRange [] results = Ok results"
| "Query_loop E now timeRange (query # queries) results =
     (case executeQuery E now query timeRange of
        Panic p \<Rightarrow> Panic p
      | Err e \<Rightarrow> Err e
      | Ok r \<Rightarrow> Query_loop E now timeRange queries (results(RefId query \<mapsto> r)))"

text \<open>\<open>Query\<close> returns the map \<open>Results\<close>; the reading \<open>now\<close> of the clock is taken as
  constant over the call.\<close>

definition Query :: "'f extern \<Rightarrow> int \<Rightarrow> tsdb_TsdbQuery \<Rightarrow> (string \<rightharpoonup> 'f QueryResult) result" where
  "Query E now tsdbQuery = Query_loop E now (TimeRange tsdbQuery) (Queries tsdbQuery) Map.empty"

section \<open>A stand-in for the library, for concrete runs\<close>

text \<open>
  Numbers are integers here, written and read in decimal: on the texts used in the concrete
  runs below, \<open>strconv.ParseFloat\<close> and \<open>fmt.Sprint\<close> agree with it.
\<close>

definition parse_decimal :: "string \<Rightarrow> int option" where
  "parse_decimal s =
     (let ds = (if s \<noteq> [] \<and> (hd s = CHR ''-'' \<or> hd s = CHR ''+'') then tl s else s)
      in if ds = [] \<or> \<not> list_all is_digit ds then None
         else Some (if hd s = CHR ''-'' then - digits_val ds else digits_val ds))"

definition no_fetch :: "string \<Rightarrow> error + int clickhouseResponse" where
  "no_fetch q = Inl (Wrap ''Request is failed'' (TransportError q))"

definition decimal_extern :: "(string \<Rightarrow> error + int clickhouseResponse) \<Rightarrow> int extern" where
  "decimal_extern f =
     \<lparr>ParseFloat = parse_decimal, FormatFloat = Itoa, float64 = (\<lambda>i. i), float_less = (<),
      GetFromAsMsEpoch = (\<lambda>tr. 0), GetToAsMsEpoch = (\<lambda>tr. 0), fetch = f\<rparr>"

section \<open>Go maps and their association lists\<close>

text \<open>
  Go fixes no order for \<open>range\<close> over a map.  Two association lists with distinct keys
  stand for the same map when they hold the same entries, in whatever order.
\<close>

definition same_row :: "'f row \<Rightarrow> 'f row \<Rightarrow> bool" where
  "same_row r r' \<longleftrightarrow> map_of r = map_of r' \<and> distinct (map fst r) \<and> distinct (map fst r')"

text \<open>What one entry of a row adds to the points of the series \<open>k\<close> (lines 144 to 154).\<close>

definition entry_points ::
  "'f extern \<Rightarrow> string \<Rightarrow> string set \<Rightarrow> string \<Rightarrow> 'f \<Rightarrow> string \<Rightarrow> string \<times> 'f jvalue
     \<Rightarrow> 'f TimePoint list" where
  "entry_points E timeColumnName stringColumns seriesName time k entry =
     (if fst entry = timeColumnName \<or> fst entry \<in> stringColumns
         \<or> k \<noteq> seriesName @ ''.'' @ fst entry then []
      else case ParseFloat E (Sprint E (snd entry)) of None \<Rightarrow> [] | Some value \<Rightarrow> [(value, time)])"

text \<open>What one row adds to the points of the series \<open>k\<close>.\<close>

definition row_points ::
  "'f extern \<Rightarrow> TimeRange option \<Rightarrow> string \<Rightarrow> column list \<Rightarrow> string \<Rightarrow> 'f row
     \<Rightarrow> 'f TimePoint list" where
  "row_points E timeRange timeColumnName metas k row =
     (case ParseFloat E (Sprint E (index_row row timeColumnName)) of
        None \<Rightarrow> []
      | Some time \<Rightarrow>
          if out_of_range E timeRange time then []
          else let acc = name_loop E timeColumnName row metas
               in concat (map (entry_points E timeColumnName (fst acc) (snd acc) time k) row))"

text \<open>The shape of the map \<open>points\<close> at every moment: each key once, each with a point.\<close>

definition tidy :: "'f points_map \<Rightarrow> bool" where
  "tidy pts \<longleftrightarrow> distinct (map fst pts) \<and> [] \<notin> snd ` set pts"

section \<open>Replacement, as the specification words it\<close>

text \<open>
  "Each occurrence of the placeholder is replaced by the text": the occurrences of \<open>p\<close>
  in \<open>s\<close>, from the left and without overlap, give way to \<open>r\<close>.  This is the reading
  against which \<open>ReplaceAllString\<close> on a literal pattern is compared below.
\<close>

function replace_text :: "string \<Rightarrow> string \<Rightarrow> string \<Rightarrow> string" where
  "replace_text p r [] = []"
| "replace_text p r (c # cs) =
     (if p \<noteq> [] \<and> prefix p (c # cs) then r @ replace_text p r (drop (length p - 1) cs)
      else c # replace_text p r cs)"
  by pat_completeness auto
termination
  by (relation "measure (\<lambda>(p, r, s). length s)") auto

section \<open>Concrete inputs\<close>

definition empty_model :: Json where
  "empty_model =
     \<lparr>get_query = None, get_table = None, get_database = None, get_dateTimeColDataType = None,
      get_dateColDataType = None, get_dateTimeType = None, get_interval = None,
      get_intervalFactor = None, get_format = None\<rparr>"

text \<open>The query \<^verbatim>\<open>SELECT $interval\<close> with interval \<^verbatim>\<open>10s\<close> and factor 3.\<close>

definition model_interval_30 :: Json where
  "model_interval_30 =
     empty_model\<lparr>get_query := Some ''SELECT $interval'', get_interval := Some ''10s'',
                 get_intervalFactor := Some 3\<rparr>"

text \<open>Bucketing queries: one over a DATETIME column, one over a date column.\<close>

definition model_datetime_ts :: Json where
  "model_datetime_ts =
     empty_model\<lparr>get_query := Some ''SELECT $timeSeries AS t'',
                 get_dateTimeColDataType := Some ''ts'', get_dateTimeType := Some ''DATETIME''\<rparr>"

definition model_date_d :: Json where
  "model_date_d =
     empty_model\<lparr>get_query := Some ''SELECT $timeSeries AS t'', get_dateColDataType := Some ''d''\<rparr>"

text \<open>A filtering query over the column \<open>ts\<close>, and two time ranges.\<close>

definition model_time_filter :: Json where
  "model_time_filter =
     empty_model\<lparr>get_query := Some ''SELECT count() FROM t WHERE $timeFilter'',
                 get_dateTimeColDataType := Some ''ts''\<rparr>"

definition range_6h_to_now :: TimeRange where
  "range_6h_to_now = \<lparr>From = ''6h'', To = ''now''\<rparr>"

definition range_6h_to_1m_ago :: TimeRange where
  "range_6h_to_1m_ago = \<lparr>From = ''6h'', To = ''now-1m''\<rparr>"

text \<open>A query with a lone \<^verbatim>\<open>$\<close> inside an SQL string literal.\<close>

definition model_bare_dollar :: Json where
  "model_bare_dollar =
     empty_model\<lparr>get_query := Some (''SELECT '' @ [CHR 0x27, CHR ''$'', CHR 0x27] @ '' AS c'')\<rparr>"

text \<open>A response that declares no column.\<close>

definition response_no_meta :: "int clickhouseResponse" where
  "response_no_meta = \<lparr>Meta = [], Data = [[(''t'', JNumber 1000)]], Rows = 1\<rparr>"

text \<open>The table of three columns and three rows, with any numbers in its cells.\<close>

definition t_host_value :: "column list" where
  "t_host_value =
     [\<lparr>Name = ''t'', Type = ''UInt64''\<rparr>, \<lparr>Name = ''host'', Type = ''String''\<rparr>,
      \<lparr>Name = ''value'', Type = ''Float64''\<rparr>]"

definition example_row :: "'f \<Rightarrow> string \<Rightarrow> 'f \<Rightarrow> 'f row" where
  "example_row t host v = [(''t'', JNumber t), (''host'', JString host), (''value'', JNumber v)]"

definition example_table :: "'f \<Rightarrow> 'f \<Rightarrow> 'f \<Rightarrow> 'f \<Rightarrow> 'f \<Rightarrow> 'f clickhouseResponse" where
  "example_table t1000 t2000 v5 v7 v9 =
     \<lparr>Meta = t_host_value,
      Data = [example_row t1000 ''a'' v5, example_row t1000 ''b'' v7, example_row t2000 ''a'' v9],
      Rows = 3\<rparr>"

text \<open>The same table with the entries of each row in another order.\<close>

definition shuffled_table :: "int clickhouseResponse" where
  "shuffled_table =
     \<lparr>Meta = t_host_value,
      Data = [[(''value'', JNumber 5), (''t'', JNumber 1000), (''host'', JString ''a'')],
              [(''value'', JNumber 7), (''t'', JNumber 1000), (''host'', JString ''b'')],
              [(''value'', JNumber 9), (''t'', JNumber 2000), (''host'', JString ''a'')]],
      Rows = 3\<rparr>"

text \<open>A number that \<open>fmt.Sprint\<close> prints and \<open>strconv.ParseFloat\<close> reads back.\<close>

definition reads_back :: "'f extern \<Rightarrow> 'f \<Rightarrow> bool" where
  "reads_back E x \<longleftrightarrow> ParseFloat E (FormatFloat E x) = Some x"

text \<open>A table whose second row has a text in the time column.\<close>

definition response_bad_time :: "int clickhouseResponse" where
  "response_bad_time =
     \<lparr>Meta = t_host_value,
      Data = [example_row 1000 ''a'' 5,
              [(''t'', JString ''not-a-number''), (''host'', JString ''b''), (''value'', JNumber 7)]],
      Rows = 2\<rparr>"

text \<open>A table whose row has an entry \<open>extra\<close> that the metadata does not declare.\<close>

definition row_with_extra :: "int row" where
  "row_with_extra =
     [(''t'', JNumber 1000), (''host'', JString ''a''), (''value'', JNumber 5), (''extra'', JNumber 3)]"

definition response_extra_column :: "int clickhouseResponse" where
  "response_extra_column = \<lparr>Meta = t_host_value, Data = [row_with_extra], Rows = 1\<rparr>"

text \<open>A batch of two queries: the interval of the first is no interval expression, the
  second has no placeholder at all.\<close>

definition query_A :: tsdb_Query where
  "query_A =
     \<lparr>RefId = ''A'',
      Model = empty_model\<lparr>get_query := Some ''SELECT $interval'', get_interval := Some ''abc''\<rparr>\<rparr>"

definition query_B :: tsdb_Query where
  "query_B = \<lparr>RefId = ''B'', Model = empty_model\<lparr>get_query := Some ''SELECT 1''\<rparr>\<rparr>"

definition table_fetch :: "string \<Rightarrow> error + int clickhouseResponse" where
  "table_fetch q = Inr (example_table 1000 2000 5 7 9)"

section \<open>Facts about the regular expressions\<close>

lemma first_some_SomeD: "first_some f ks = Some r \<Longrightarrow> \<exists>k \<in> set ks. f k = Some r"
  by (induction ks) (auto split: option.splits)

lemma first_some_hit: "f k \<noteq> None \<Longrightarrow> first_some f (k # ks) \<noteq> None"
  by (cases "f k") auto

subsection \<open>Literal patterns\<close>

lemma run_literal:
  "run (map (\<lambda>c. Piece (Lit c) Once False) p) False s =
     (if prefix p s then Some (replicate (length p) 1) else None)"
proof (induction p arbitrary: s)
  case Nil
  then show ?case by simp
next
  case (Cons a p)
  show ?case
  proof (cases s)
    case Nil
    then show ?thesis by simp
  next
    case (Cons c cs)
    then show ?thesis by (simp add: Cons.IH)
  qed
qed

lemma group_texts_literal:
  "group_texts (map (\<lambda>c. Piece (Lit c) Once False) p) ks s = []"
proof (induction p arbitrary: ks s)
  case Nil
  then show ?case by simp
next
  case (Cons a p)
  then show ?case by (cases ks) simp_all
qed

lemma match_somewhere_literal:
  "match_somewhere (map (\<lambda>c. Piece (Lit c) Once False) p) False s \<longleftrightarrow> (\<exists>a b. s = a @ p @ b)"
proof (induction s)
  case Nil
  then show ?case by (simp add: run_literal)
next
  case (Cons c cs)
  have "(\<exists>a b. c # cs = a @ p @ b) \<longleftrightarrow> prefix p (c # cs) \<or> (\<exists>a b. cs = a @ p @ b)"
  proof
    assume "\<exists>a b. c # cs = a @ p @ b"
    then obtain a b where ab: "c # cs = a @ p @ b" by blast
    show "prefix p (c # cs) \<or> (\<exists>a b. cs = a @ p @ b)"
    proof (cases a)
      case Nil
      with ab show ?thesis by (simp add: prefix_def)
    next
      case (Cons x a')
      with ab have "cs = a' @ p @ b" by simp
      then show ?thesis by blast
    qed
  next
    assume "prefix p (c # cs) \<or> (\<exists>a b. cs = a @ p @ b)"
    then show "\<exists>a b. c # cs = a @ p @ b"
    proof
      assume "prefix p (c # cs)"
      then obtain b where "c # cs = p @ b" by (auto simp: prefix_def)
      then have "c # cs = [] @ p @ b" by simp
      then show ?thesis by blast
    next
      assume "\<exists>a b. cs = a @ p @ b"
      then obtain a b where "cs = a @ p @ b" by blast
      then have "c # cs = (c # a) @ p @ b" by simp
      then show ?thesis by blast
    qed
  qed
  with Cons show ?case by (simp add: run_literal)
qed

text \<open>A literal pattern matches a text exactly when the text contains it.\<close>

lemma MatchString_literal: "MatchString (literal p) s \<longleftrightarrow> (\<exists>a b. s = a @ p @ b)"
  by (simp add: MatchString_def literal_def match_somewhere_literal)

lemma expand_no_dollar: "CHR ''$'' \<notin> set t \<Longrightarrow> expand gs t = t"
  by (induction t) auto

lemma segments_literal:
  "p \<noteq> [] \<Longrightarrow>
   concat (map (\<lambda>seg. case seg of Inl c \<Rightarrow> [c] | Inr m \<Rightarrow> expand m repl)
     (segments (map (\<lambda>c. Piece (Lit c) Once False) p) False s))
   = replace_text p (expand [p] repl) s"
proof (induction p "expand [p] repl" s rule: replace_text.induct)
  case (1 p)
  then show ?case by simp
next
  case (2 p c cs)
  show ?case
  proof (cases "prefix p (c # cs)")
    case True
    then have "take (length p) (c # cs) = p"
      by (auto simp: prefix_def)
    with True 2 show ?thesis
      by (simp add: run_literal submatches_def group_texts_literal sum_list_replicate)
  next
    case False
    with 2 show ?thesis by (simp add: run_literal)
  qed
qed

text \<open>
  On a literal pattern, \<open>ReplaceAllString\<close> is the replacement of each occurrence by the
  expanded template; a template without \<^verbatim>\<open>$\<close> stands for itself.
\<close>

lemma ReplaceAllString_literal:
  "p \<noteq> [] \<Longrightarrow> ReplaceAllString (literal p) s repl = replace_text p (expand [p] repl) s"
  by (simp add: ReplaceAllString_def literal_def segments_literal)

lemma ReplaceAllString_literal_plain:
  "p \<noteq> [] \<Longrightarrow> CHR ''$'' \<notin> set repl \<Longrightarrow> ReplaceAllString (literal p) s repl = replace_text p repl s"
  by (simp add: ReplaceAllString_literal expand_no_dollar)

subsection \<open>The scan for a left-over placeholder\<close>

lemma run_placeholder:
  "run (pieces re_placeholder) (eol re_placeholder) s \<noteq> None \<longleftrightarrow> s \<noteq> [] \<and> hd s = CHR ''$''"
proof (cases s)
  case Nil
  then show ?thesis by (simp add: re_placeholder_def)
next
  case (Cons c cs)
  have "first_some (\<lambda>k. map_option ((#) k) (Some []))
          (rev [0..<Suc (length (takeWhile is_word cs))]) \<noteq> None"
    by (simp add: first_some_hit)
  with Cons show ?thesis by (simp add: re_placeholder_def)
qed

lemma match_somewhere_placeholder:
  "match_somewhere (pieces re_placeholder) (eol re_placeholder) s \<longleftrightarrow> CHR ''$'' \<in> set s"
proof (induction s)
  case Nil
  then show ?case using run_placeholder [of "[]"] by simp
next
  case (Cons c cs)
  then show ?case using run_placeholder [of "c # cs"] by auto
qed

text \<open>The pattern \<^verbatim>\<open>\$\w*\<close> finds a match in a text exactly when the text holds a \<^verbatim>\<open>$\<close>.\<close>

lemma MatchString_placeholder: "MatchString re_placeholder s \<longleftrightarrow> CHR ''$'' \<in> set s"
  using match_somewhere_placeholder [of s] by (simp add: MatchString_def re_placeholder_def)

subsection \<open>The pattern of an interval\<close>

lemma accepts_class: "accepts Digit = is_digit" "accepts Word = is_word"
  by (rule ext, simp)+

lemma counts_Plus_bounds:
  "k \<in> set (counts (Piece c Plus g) s) \<Longrightarrow> 1 \<le> k \<and> k \<le> length (takeWhile (accepts c) s)"
  by auto

lemma take_within_takeWhile:
  "k \<le> length (takeWhile P s) \<Longrightarrow> list_all P (take k s)"
proof (induction s arbitrary: k)
  case Nil
  then show ?case by simp
next
  case (Cons x xs)
  show ?case
  proof (cases k)
    case 0
    then show ?thesis by simp
  next
    case (Suc k')
    with Cons.prems have "P x" and "k' \<le> length (takeWhile P xs)"
      by (auto split: if_splits)
    with Cons.IH [of k'] Suc show ?thesis by simp
  qed
qed

text \<open>What a match of \<^verbatim>\<open>^(\d+)(\w+)$\<close> demands of the text.\<close>

lemma run_interval_SomeD:
  assumes "run (pieces re_interval_expr) (eol re_interval_expr) s = Some ks"
  shows "list_all is_word s \<and> s \<noteq> [] \<and> is_digit (hd s)"
proof -
  let ?f2 = "\<lambda>u k. map_option ((#) k) (run [] True (drop k u))"
  let ?f1 = "\<lambda>k. map_option ((#) k) (first_some (?f2 (drop k s)) (counts (Piece Word Plus True) (drop k s)))"
  from assms have "first_some ?f1 (counts (Piece Digit Plus True) s) = Some ks"
    by (simp add: re_interval_expr_def del: counts.simps first_some.simps)
  from first_some_SomeD [OF this] obtain k1
    where k1: "k1 \<in> set (counts (Piece Digit Plus True) s)" and f1: "?f1 k1 = Some ks"
    by blast
  from counts_Plus_bounds [OF k1] have k1b: "1 \<le> k1" "k1 \<le> length (takeWhile is_digit s)"
    by (simp_all add: accepts_class)
  let ?u = "drop k1 s"
  from f1 obtain ks' where "first_some (?f2 ?u) (counts (Piece Word Plus True) ?u) = Some ks'"
    by (cases "first_some (?f2 ?u) (counts (Piece Word Plus True) ?u)") auto
  from first_some_SomeD [OF this] obtain k2
    where k2: "k2 \<in> set (counts (Piece Word Plus True) ?u)" and f2: "?f2 ?u k2 = Some ks'"
    by blast
  from counts_Plus_bounds [OF k2] have k2b: "k2 \<le> length (takeWhile is_word ?u)"
    by (simp add: accepts_class)
  from f2 have "drop k2 ?u = []"
    by (auto split: if_splits)
  then have "length ?u \<le> k2"
    by simp
  with k2b have "list_all is_word (take (length ?u) ?u)"
    by (intro take_within_takeWhile) simp
  then have tail: "list_all is_word ?u"
    by simp
  have "list_all is_digit (take k1 s)"
    using k1b(2) by (rule take_within_takeWhile)
  then have head: "list_all is_word (take k1 s)"
    by (auto simp: list_all_iff is_word_def)
  have all: "list_all is_word s"
    using head tail list_all_append [of is_word "take k1 s" "drop k1 s"] by simp
  from k1b have "takeWhile is_digit s \<noteq> []"
    by auto
  then have "s \<noteq> [] \<and> is_digit (hd s)"
    by (cases s) (auto split: if_splits)
  with all show ?thesis by simp
qed

text \<open>
  So \<open>IntervalToSeconds\<close> panics on every text that is not empty and holds a character
  outside \<^verbatim>\<open>\w\<close>, or does not begin with a digit.
\<close>

lemma IntervalToSeconds_panics:
  assumes "s \<noteq> []" and "\<not> list_all is_word s \<or> \<not> is_digit (hd s)"
  shows "IntervalToSeconds s = Panic IndexOutOfRange"
proof -
  have "run (pieces re_interval_expr) (eol re_interval_expr) s = None"
  proof (cases "run (pieces re_interval_expr) (eol re_interval_expr) s")
    case None
    then show ?thesis .
  next
    case (Some ks)
    from run_interval_SomeD [OF this] assms(2) show ?thesis by simp
  qed
  then have "FindAllStringSubmatch re_interval_expr s = []"
    by (simp add: FindAllStringSubmatch_def re_interval_expr_def)
  with assms(1) show ?thesis
    by (simp add: IntervalToSeconds_def)
qed

lemma IntervalToSeconds_panics_on_dash:
  "CHR ''-'' \<in> set s \<Longrightarrow> IntervalToSeconds s = Panic IndexOutOfRange"
proof (rule IntervalToSeconds_panics)
  assume "CHR ''-'' \<in> set s"
  then show "s \<noteq> []" by auto
  have "\<not> is_word CHR ''-''"
    by (simp add: is_word_def is_digit_def is_letter_def)
  with \<open>CHR ''-'' \<in> set s\<close> show "\<not> list_all is_word s \<or> \<not> is_digit (hd s)"
    by (auto simp: list_all_iff)
qed

subsection \<open>Decimal digits\<close>

lemma digit_char_digit: "0 \<le> k \<Longrightarrow> k < 10 \<Longrightarrow> is_digit (digit_char k)"
  by (simp add: is_digit_def digit_char_def of_char_of)

lemma dec_digits_digits: "0 \<le> n \<Longrightarrow> c \<in> set (dec_digits n) \<Longrightarrow> is_digit c"
proof (induction n rule: dec_digits.induct)
  case (1 n)
  show ?case
  proof (cases "n < 10")
    case True
    with "1.prems" digit_char_digit [of n] show ?thesis
      by (simp add: dec_digits.simps [of n])
  next
    case False
    have "0 \<le> n mod 10" and "n mod 10 < 10"
      by simp_all
    then have "is_digit (digit_char (n mod 10))"
      by (rule digit_char_digit)
    moreover have "0 \<le> n div 10"
      using "1.prems"(1) by simp
    ultimately show ?thesis
      using False "1.prems" "1.IH" by (auto simp: dec_digits.simps [of n])
  qed
qed

lemma Itoa_no_dollar: "CHR ''$'' \<notin> set (Itoa i)"
proof -
  have "\<not> is_digit CHR ''$''"
    by (simp add: is_digit_def)
  then have "CHR ''$'' \<notin> set (dec_digits n)" if "0 \<le> n" for n
    using dec_digits_digits [OF that, of "CHR ''$''"] by blast
  from this [of i] this [of "- i"] show ?thesis
    by (simp add: Itoa_def)
qed

section \<open>The interval resolver\<close>

text \<open>
  Claim C1.  \<open>IntervalToSeconds\<close> is meant to be total and lenient: the empty string and
  every text that is not a positive integer followed by one of the units s, m, h, d give 1,
  and \<^verbatim>\<open><n><unit>\<close> gives \<open>n\<close> times the seconds of the unit.  The code does so on
  \<^verbatim>\<open>5m\<close>, \<^verbatim>\<open>2h\<close>, the empty string and \<^verbatim>\<open>0m\<close>.  On \<^verbatim>\<open>abc\<close>, which the pattern
  \<^verbatim>\<open>^(\d+)(\w+)$\<close> does not match, \<open>FindAllStringSubmatch\<close> returns no match and the
  unguarded \<open>matches[0]\<close> panics: the function aborts instead of giving 1.
\<close>

theorem IntervalToSeconds_panics_on_unmatched:
  "IntervalToSeconds ''abc'' = Panic IndexOutOfRange
   \<and> IntervalToSeconds ''5m'' = Ok 300
   \<and> IntervalToSeconds ''2h'' = Ok 7200
   \<and> IntervalToSeconds [] = Ok 1
   \<and> IntervalToSeconds ''0m'' = Ok 1"
  by code_simp


text \<open>
  On the inputs the grammar allows, digits followed by one of the units, the function does
  what the claim says, within the 64 bits of \<open>int\<close>.
\<close>

lemma unit_classes:
  assumes "u \<in> {CHR ''s'', CHR ''m'', CHR ''h'', CHR ''d''}"
  shows "is_word u" and "\<not> is_digit u" and "0 < intervalSteps [u]"
  using assms by (auto simp: is_word_def is_digit_def is_letter_def intervalSteps_def)

lemma run_interval_unit:
  assumes "ds \<noteq> []" and "list_all is_digit ds"
    and "u \<in> {CHR ''s'', CHR ''m'', CHR ''h'', CHR ''d''}"
  shows "run (pieces re_interval_expr) (eol re_interval_expr) (ds @ [u]) = Some [length ds, 1]"
proof -
  have tw: "takeWhile is_digit (ds @ [u]) = ds"
    using assms(2) unit_classes(2) [OF assms(3)] by (simp add: list_all_iff)
  have n: "[Suc 0..<Suc (length ds)] = [Suc 0..<length ds] @ [length ds]"
    using assms(1) by (cases ds) simp_all
  have w: "run [Piece Word Plus True] True [u] = Some [1]"
    using unit_classes(1) [OF assms(3)] by (simp add: accepts_class)
  let ?F = "\<lambda>k. map_option ((#) k) (run [Piece Word Plus True] True (drop k (ds @ [u])))"
  have "run (pieces re_interval_expr) (eol re_interval_expr) (ds @ [u])
      = first_some ?F (counts (Piece Digit Plus True) (ds @ [u]))"
    by (simp add: re_interval_expr_def del: run.simps(1) counts.simps first_some.simps)
  also have "counts (Piece Digit Plus True) (ds @ [u]) = length ds # rev [1..<length ds]"
    by (simp add: accepts_class tw n del: upt_Suc)
  also have "first_some ?F (length ds # rev [1..<length ds]) = Some [length ds, 1]"
  proof -
    have "?F (length ds) = Some [length ds, 1]"
      by (simp add: w del: run.simps)
    then show ?thesis
      by (simp only: first_some.simps option.case)
  qed
  finally show ?thesis .
qed

lemma IntervalToSeconds_unit:
  assumes "ds \<noteq> []" and "list_all is_digit ds"
    and "u \<in> {CHR ''s'', CHR ''m'', CHR ''h'', CHR ''d''}"
  shows "IntervalToSeconds (ds @ [u]) =
           (if 0 < Atoi ds then Ok (wrap64 (Atoi ds * intervalSteps [u])) else Ok 1)"
proof -
  have "FindAllStringSubmatch re_interval_expr (ds @ [u]) = [[ds @ [u], ds, [u]]]"
    using run_interval_unit [OF assms]
    by (simp add: FindAllStringSubmatch_def submatches_def re_interval_expr_def)
  then show ?thesis
    using unit_classes(3) [OF assms(3)] by (simp add: IntervalToSeconds_def)
qed

lemma digits_val_nonneg: "list_all is_digit ds \<Longrightarrow> 0 \<le> n \<Longrightarrow> 0 \<le> foldl (\<lambda>n c. 10 * n + digit_val c) n ds"
proof (induction ds arbitrary: n)
  case Nil
  then show ?case by simp
next
  case (Cons c ds)
  from Cons.prems have "0 \<le> 10 * n + digit_val c"
    by (simp add: is_digit_def digit_val_def Let_def)
  with Cons show ?case by simp
qed

lemma Atoi_digits:
  assumes "ds \<noteq> []" and "list_all is_digit ds" and "digits_val ds < 2 ^ 63"
  shows "Atoi ds = digits_val ds"
proof -
  from assms(1,2) have "is_digit (hd ds)"
    by (cases ds) simp_all
  then have "hd ds \<noteq> CHR ''-''" and "hd ds \<noteq> CHR ''+''"
    by (auto simp: is_digit_def)
  with assms show ?thesis
    by (simp add: Atoi_def Let_def)
qed

lemma IntervalToSeconds_valid:
  assumes "ds \<noteq> []" and "list_all is_digit ds"
    and "u \<in> {CHR ''s'', CHR ''m'', CHR ''h'', CHR ''d''}"
    and "0 < digits_val ds" and "digits_val ds * intervalSteps [u] < 2 ^ 63"
  shows "IntervalToSeconds (ds @ [u]) = Ok (digits_val ds * intervalSteps [u])"
proof -
  let ?n = "digits_val ds" and ?s = "intervalSteps [u]"
  have s: "1 \<le> ?s"
    using unit_classes(3) [OF assms(3)] by simp
  with assms(4) have "?n * 1 \<le> ?n * ?s"
    by (intro mult_left_mono) simp_all
  with assms(5) have small: "?n < 2 ^ 63"
    by simp
  have a: "Atoi ds = ?n"
    using assms(1,2) small by (rule Atoi_digits)
  have "0 \<le> ?n * ?s"
    using assms(4) s by simp
  with assms(5) have "wrap64 (?n * ?s) = ?n * ?s"
    by (simp add: wrap64_def)
  with a assms(4) show ?thesis
    by (simp add: IntervalToSeconds_unit [OF assms(1-3)])
qed

section \<open>The templater\<close>

subsection \<open>\<open>$interval\<close>\<close>

text \<open>What \<open>ParseInterval\<close> puts in place of each \<^verbatim>\<open>$interval\<close>, for every query and model.\<close>

lemma ParseInterval_replacement:
  assumes "query = a @ ''$interval'' @ b" and "GetInterval model = Ok i"
  shows "ParseInterval query model =
           Ok (replace_text ''$interval'' (expand [''$interval''] (string_of_int i)) query)"
proof -
  have "MatchString (literal ''$interval'') query"
    using assms(1) by (auto simp: MatchString_literal)
  with assms(2) show ?thesis
    by (simp add: ParseInterval_def ReplaceAllString_literal)
qed

text \<open>
  Claim C3.  Each \<^verbatim>\<open>$interval\<close> is meant to be replaced by the decimal text of the
  effective interval, so that interval \<^verbatim>\<open>10s\<close> with factor 3 gives the text \<^verbatim>\<open>30\<close>.
  \<open>GetInterval\<close> does compute 30, but \<open>ParseInterval\<close> converts it with \<open>string(...)\<close>,
  which gives the character with code point 30 (the byte \<open>0x1E\<close>) and not its decimal
  digits.
\<close>

theorem ParseInterval_substitutes_code_point:
  "GetInterval model_interval_30 = Ok 30
   \<and> ParseInterval ''SELECT $interval'' model_interval_30 = Ok (''SELECT '' @ [CHR 0x1E])
   \<and> ParseInterval ''SELECT $interval'' model_interval_30 \<noteq> Ok ''SELECT 30''
   \<and> Parse 1000000 model_interval_30 None = Ok (''SELECT '' @ [CHR 0x1E])"
  unfolding model_interval_30_def empty_model_def by code_simp

subsection \<open>\<open>$timeSeries\<close>\<close>

lemma bucket_no_dollar:
  "CHR ''$'' \<notin> set column \<Longrightarrow>
   CHR ''$'' \<notin> set (''(intDiv('' @ (if cast then ''toUInt32('' @ column @ '')'' else column) @ '', ''
                         @ Itoa i @ '') * '' @ Itoa i @ '') * 1000'')"
  by (simp add: Itoa_no_dollar)

text \<open>
  Claim C2, as the claim states it, fails: the cast \<open>toUInt32\<close> is applied to a column of
  type DATETIME, and a date column (type DATE) is divided as it is.
\<close>

theorem ParseTimeSeries_cast_counterexample:
  "GetDateTimeColumn model_datetime_ts = Ok (''ts'', ''DATETIME'')
   \<and> ParseTimeSeries ''SELECT $timeSeries AS t'' model_datetime_ts
       = Ok ''SELECT (intDiv(toUInt32(ts), 1) * 1) * 1000 AS t''
   \<and> GetDateTimeColumn model_date_d = Ok (''d'', ''DATE'')
   \<and> ParseTimeSeries ''SELECT $timeSeries AS t'' model_date_d
       = Ok ''SELECT (intDiv(d, 1) * 1) * 1000 AS t''"
  unfolding model_datetime_ts_def model_date_d_def empty_model_def by code_simp

text \<open>
  Claim C2, amended.  For every query that contains \<^verbatim>\<open>$timeSeries\<close>, with a resolvable
  time column whose name holds no \<^verbatim>\<open>$\<close>: each occurrence of the placeholder is replaced by
  \<^verbatim>\<open>(intDiv(X, i) * i) * 1000\<close>, where \<open>i\<close> is the effective interval in decimal and \<open>X\<close>
  is \<^verbatim>\<open>toUInt32(column)\<close> when the resolved type is exactly DATETIME and the bare column
  otherwise (so for DATE).  Apart from the cast the text is the same in both cases.
\<close>

theorem ParseTimeSeries_casts_DATETIME:
  assumes "query = a @ ''$timeSeries'' @ b"
    and "GetDateTimeColumn model = Ok (column, dateTimeType)"
    and "GetInterval model = Ok i"
    and "CHR ''$'' \<notin> set column"
  shows "ParseTimeSeries query model =
           Ok (replace_text ''$timeSeries''
                 (''(intDiv(''
                    @ (if dateTimeType = ''DATETIME'' then ''toUInt32('' @ column @ '')'' else column)
                    @ '', '' @ Itoa i @ '') * '' @ Itoa i @ '') * 1000'')
                 query)"
proof -
  have m: "MatchString (literal ''$timeSeries'') query"
    using assms(1) by (auto simp: MatchString_literal)
  show ?thesis
  proof (cases "dateTimeType = ''DATETIME''")
    case True
    with m assms(2,3) bucket_no_dollar [OF assms(4), of True i] show ?thesis
      by (simp add: ParseTimeSeries_def ReplaceAllString_literal_plain)
  next
    case False
    with m assms(2,3) bucket_no_dollar [OF assms(4), of False i] show ?thesis
      by (simp add: ParseTimeSeries_def ReplaceAllString_literal_plain)
  qed
qed

theorem ParseTimeSeries_casts_DATETIME_witness:
  "''SELECT $timeSeries AS t'' = ''SELECT '' @ ''$timeSeries'' @ '' AS t''
   \<and> GetDateTimeColumn model_datetime_ts = Ok (''ts'', ''DATETIME'')
   \<and> GetInterval model_datetime_ts = Ok 1
   \<and> CHR ''$'' \<notin> set ''ts''
   \<and> ParseTimeSeries ''SELECT $timeSeries AS t'' model_datetime_ts =
       Ok (replace_text ''$timeSeries''
             (''(intDiv('' @ (if ''DATETIME'' = ''DATETIME'' then ''toUInt32('' @ ''ts'' @ '')'' else ''ts'')
                @ '', '' @ Itoa 1 @ '') * '' @ Itoa 1 @ '') * 1000'')
             ''SELECT $timeSeries AS t'')
   \<and> replace_text ''$timeSeries'' ''(intDiv(toUInt32(ts), 1) * 1) * 1000'' ''SELECT $timeSeries AS t''
       = ''SELECT (intDiv(toUInt32(ts), 1) * 1) * 1000 AS t''"
proof -
  have q: "''SELECT $timeSeries AS t'' = ''SELECT '' @ ''$timeSeries'' @ '' AS t''"
    by simp
  have c: "GetDateTimeColumn model_datetime_ts = Ok (''ts'', ''DATETIME'')"
    unfolding model_datetime_ts_def empty_model_def by code_simp
  have i: "GetInterval model_datetime_ts = Ok 1"
    unfolding model_datetime_ts_def empty_model_def by code_simp
  have d: "CHR ''$'' \<notin> set ''ts''"
    by simp
  have r: "replace_text ''$timeSeries'' ''(intDiv(toUInt32(ts), 1) * 1) * 1000''
             ''SELECT $timeSeries AS t'' = ''SELECT (intDiv(toUInt32(ts), 1) * 1) * 1000 AS t''"
    by code_simp
  from q c i d r ParseTimeSeries_casts_DATETIME [OF q c i d] show ?thesis
    by (intro conjI)
qed

subsection \<open>\<open>$timeFilter\<close>\<close>

lemma Split_not_Nil: "Split s sep \<noteq> []"
  by (induction s) (auto split: list.splits)

lemma Split_length: "1 < length (Split s sep) \<longleftrightarrow> sep \<in> set s"
proof (induction s)
  case Nil
  then show ?case by simp
next
  case (Cons c cs)
  then show ?case
    using Split_not_Nil [of cs sep] by (cases "Split cs sep") auto
qed

text \<open>
  The offset branch of \<open>GetTimeRangeAsTimestamps\<close> is taken when \<open>To\<close> holds a \<^verbatim>\<open>-\<close>, and
  then \<open>IntervalToSeconds\<close> is given a text that its pattern cannot match.
\<close>

lemma GetTimeRangeAsTimestamps_offset_panics:
  assumes "CHR ''-'' \<in> set (To timeRange)"
  shows "\<exists>p. GetTimeRangeAsTimestamps now timeRange isDateTime = Panic p"
proof (cases "IntervalToSeconds (From timeRange)")
  case (Ok fromSecs)
  from assms have "1 < length (Split (To timeRange) CHR ''-'')"
    using Split_length [of "To timeRange" "CHR ''-''"] by simp
  with assms Ok show ?thesis
    by (simp add: GetTimeRangeAsTimestamps_def IntervalToSeconds_panics_on_dash)
next
  case (Err e)
  then show ?thesis
    by (auto simp: IntervalToSeconds_def Let_def split: if_splits list.splits)
next
  case (Panic p)
  then show ?thesis by (simp add: GetTimeRangeAsTimestamps_def)
qed

lemma ParseTimeFilter_offset_panics:
  assumes "query = a @ ''$timeFilter'' @ b"
    and "GetDateTimeColumn model = Ok (column, dateTimeType)"
    and "CHR ''-'' \<in> set (To timeRange)"
  shows "\<exists>p. ParseTimeFilter now query model (Some timeRange) = Panic p"
proof -
  have "MatchString (literal ''$timeFilter'') query"
    using assms(1) by (auto simp: MatchString_literal)
  moreover obtain p
    where "GetTimeRangeAsTimestamps now timeRange (dateTimeType = ''DATETIME'') = Panic p"
    using GetTimeRangeAsTimestamps_offset_panics [OF assms(3)] by blast
  ultimately show ?thesis
    using assms(2) by (simp add: ParseTimeFilter_def)
qed

text \<open>
  Where nothing panics, the predicate has the two shapes; the upper bound of the second is
  then the present time.
\<close>

lemma ParseTimeFilter_shape:
  assumes "query = a @ ''$timeFilter'' @ b"
    and "GetDateTimeColumn model = Ok (column, dateTimeType)"
    and "CHR ''$'' \<notin> set column"
    and "IntervalToSeconds (From timeRange) = Ok secs"
    and "CHR ''-'' \<notin> set (To timeRange)"
  shows "ParseTimeFilter now query model (Some timeRange) =
           Ok (replace_text ''$timeFilter''
                 (if To timeRange = ''now''
                  then column @ '' >= ''
                       @ (if dateTimeType = ''DATETIME'' then Itoa (wrap64 (now - secs))
                          else ''toDate('' @ Itoa (wrap64 (now - secs)) @ '')'')
                  else column @ '' BETWEEN ''
                       @ (if dateTimeType = ''DATETIME'' then Itoa (wrap64 (now - secs))
                          else ''toDate('' @ Itoa (wrap64 (now - secs)) @ '')'')
                       @ '' AND ''
                       @ (if dateTimeType = ''DATETIME'' then Itoa now
                          else ''toDate('' @ Itoa now @ '')''))
                 query)"
proof -
  have m: "MatchString (literal ''$timeFilter'') query"
    using assms(1) by (auto simp: MatchString_literal)
  have s: "\<not> 1 < length (Split (To timeRange) CHR ''-'')"
    using assms(5) Split_length [of "To timeRange" "CHR ''-''"] by simp
  have g: "GetTimeRangeAsTimestamps now timeRange (dateTimeType = ''DATETIME'') =
      (if dateTimeType = ''DATETIME'' then Ok (Itoa (wrap64 (now - secs)), Itoa now)
       else Ok (''toDate('' @ Itoa (wrap64 (now - secs)) @ '')'', ''toDate('' @ Itoa now @ '')''))"
    using s assms(4) by (simp add: GetTimeRangeAsTimestamps_def Let_def)
  show ?thesis
    using m assms(2,3)
    by (simp add: ParseTimeFilter_def g ReplaceAllString_literal_plain Itoa_no_dollar)
qed

text \<open>
  Claim C6.  \<^verbatim>\<open>$timeFilter\<close> is meant to become \<^verbatim>\<open>column >= from\<close> when \<open>To\<close> is \<^verbatim>\<open>now\<close>
  and \<^verbatim>\<open>column BETWEEN from AND to\<close> for any other \<open>To\<close>.  The code gives the first on the
  range from \<^verbatim>\<open>6h\<close> to \<^verbatim>\<open>now\<close>.  On the range from \<^verbatim>\<open>6h\<close> to \<^verbatim>\<open>now-1m\<close> it gives no
  predicate: \<open>GetTimeRangeAsTimestamps\<close> passes \<open>To\<close> to \<open>IntervalToSeconds\<close>, whose pattern
  cannot match a text with \<^verbatim>\<open>-\<close>, and the call panics (the defect of claim C1).
\<close>

theorem ParseTimeFilter_panics_on_offset_range:
  "ParseTimeFilter 1000000 ''SELECT count() FROM t WHERE $timeFilter'' model_time_filter
       (Some range_6h_to_1m_ago) = Panic IndexOutOfRange
   \<and> Parse 1000000 model_time_filter (Some range_6h_to_1m_ago) = Panic IndexOutOfRange
   \<and> ParseTimeFilter 1000000 ''SELECT count() FROM t WHERE $timeFilter'' model_time_filter
       (Some range_6h_to_now) = Ok ''SELECT count() FROM t WHERE ts >= 978400''"
  unfolding model_time_filter_def range_6h_to_1m_ago_def range_6h_to_now_def empty_model_def
  by code_simp

subsection \<open>The scan for a left-over placeholder\<close>

text \<open>
  Claim C9.  The last step of \<open>Parse\<close> looks for \<^verbatim>\<open>\$\w*\<close>, which a lone \<^verbatim>\<open>$\<close> matches:
  when the four substitutions succeed, \<open>Parse\<close> fails with the unsupported-placeholder error
  exactly when their result holds a \<^verbatim>\<open>$\<close> anywhere, and returns that result otherwise.
\<close>

theorem Parse_rejects_any_dollar:
  assumes "get_query model = Some q"
    and "substitutions now q model timeRange = Ok formattedQuery"
  shows "Parse now model timeRange =
           (if CHR ''$'' \<in> set formattedQuery then Err UnsupportedPlaceholder else Ok formattedQuery)"
  using assms by (simp add: Parse_def MatchString_placeholder)

theorem Parse_rejects_any_dollar_witness:
  "get_query model_bare_dollar = Some (''SELECT '' @ [CHR 0x27, CHR ''$'', CHR 0x27] @ '' AS c'')
   \<and> substitutions 0 (''SELECT '' @ [CHR 0x27, CHR ''$'', CHR 0x27] @ '' AS c'') model_bare_dollar None
       = Ok (''SELECT '' @ [CHR 0x27, CHR ''$'', CHR 0x27] @ '' AS c'')
   \<and> CHR ''$'' \<in> set (''SELECT '' @ [CHR 0x27, CHR ''$'', CHR 0x27] @ '' AS c'')
   \<and> Parse 0 model_bare_dollar None = Err UnsupportedPlaceholder"
proof -
  let ?q = "''SELECT '' @ [CHR 0x27, CHR ''$'', CHR 0x27] @ '' AS c''"
  have g: "get_query model_bare_dollar = Some ?q"
    by (simp add: model_bare_dollar_def empty_model_def)
  have s: "substitutions 0 ?q model_bare_dollar None = Ok ?q"
    unfolding model_bare_dollar_def empty_model_def by code_simp
  have d: "CHR ''$'' \<in> set ?q"
    by simp
  from Parse_rejects_any_dollar [OF g s] d have "Parse 0 model_bare_dollar None = Err UnsupportedPlaceholder"
    by simp
  with g s d show ?thesis
    by (intro conjI)
qed

section \<open>The pivot transform\<close>

subsection \<open>The stand-in library, field by field\<close>

lemma decimal_extern_sel:
  "ParseFloat (decimal_extern f) = parse_decimal"
  "FormatFloat (decimal_extern f) = Itoa"
  "float64 (decimal_extern f) = (\<lambda>i. i)"
  "float_less (decimal_extern f) = (<)"
  "fetch (decimal_extern f) = f"
  by (simp_all add: decimal_extern_def)

lemma parse_decimal_examples:
  "parse_decimal ''a'' = None" "parse_decimal ''b'' = None"
  "parse_decimal ''not-a-number'' = None"
  "parse_decimal ''1000'' = Some 1000" "parse_decimal ''2000'' = Some 2000"
  "parse_decimal ''3'' = Some 3" "parse_decimal ''5'' = Some 5"
  "parse_decimal ''7'' = Some 7" "parse_decimal ''9'' = Some 9"
  by code_simp+

lemma Itoa_examples:
  "Itoa 1000 = ''1000''" "Itoa 2000 = ''2000''" "Itoa 3 = ''3''" "Itoa 5 = ''5''"
  "Itoa 7 = ''7''" "Itoa 9 = ''9''"
  by code_simp+

subsection \<open>No column declared\<close>

text \<open>
  Claim C8.  \<open>buildSeries\<close> reads \<open>responseJson.Meta[0]\<close> before anything else: on every
  response whose \<open>Meta\<close> is empty it returns neither series nor an error value, it panics
  with an index out of range.
\<close>

theorem buildSeries_empty_meta_panics:
  "Meta responseJson = [] \<Longrightarrow> buildSeries E responseJson timeRange = Panic IndexOutOfRange"
  by (simp add: buildSeries_def)

theorem buildSeries_empty_meta_panics_witness:
  "Meta response_no_meta = []
   \<and> buildSeries (decimal_extern no_fetch) response_no_meta None = Panic IndexOutOfRange"
  using buildSeries_empty_meta_panics [of response_no_meta "decimal_extern no_fetch" None]
  by (simp add: response_no_meta_def)

subsection \<open>One row\<close>

lemma row_step_no_panic: "row_step E tr tc ms row pts \<noteq> Panic p"
  by (simp add: row_step_def Let_def split: option.splits)

lemma row_step_Err_iff:
  "row_step E tr tc ms row pts = Err e \<longleftrightarrow>
     ParseFloat E (Sprint E (index_row row tc)) = None
     \<and> e = CannotParseFloat (Sprint E (index_row row tc))"
  by (auto simp: row_step_def Let_def split: option.splits)

lemma row_step_Ok_iff:
  "(\<exists>pts'. row_step E tr tc ms row pts = Ok pts') \<longleftrightarrow>
     ParseFloat E (Sprint E (index_row row tc)) \<noteq> None"
  by (auto simp: row_step_def Let_def split: option.splits)

subsection \<open>The loop over the rows\<close>

lemma rows_loop_no_panic: "rows_loop E tr tc ms rows pts \<noteq> Panic p"
proof (induction rows arbitrary: pts)
  case Nil
  then show ?case by simp
next
  case (Cons row rows)
  show ?case
  proof (cases "row_step E tr tc ms row pts")
    case (Ok pts')
    then show ?thesis using Cons.IH [of pts'] by simp
  next
    case (Err e)
    then show ?thesis by simp
  next
    case (Panic q)
    then show ?thesis using row_step_no_panic [of E tr tc ms row pts q] by simp
  qed
qed

lemma rows_loop_Err:
  "rows_loop E tr tc ms rows pts = Err e \<Longrightarrow>
     \<exists>row \<in> set rows. ParseFloat E (Sprint E (index_row row tc)) = None
        \<and> e = CannotParseFloat (Sprint E (index_row row tc))"
proof (induction rows arbitrary: pts)
  case Nil
  then show ?case by simp
next
  case (Cons row rows)
  show ?case
  proof (cases "row_step E tr tc ms row pts")
    case (Ok pts')
    with Cons.prems have "rows_loop E tr tc ms rows pts' = Err e" by simp
    from Cons.IH [OF this] show ?thesis by auto
  next
    case (Err e')
    with Cons.prems have "e' = e" by simp
    with Err show ?thesis by (auto simp: row_step_Err_iff)
  next
    case (Panic q)
    then show ?thesis using row_step_no_panic [of E tr tc ms row pts q] by simp
  qed
qed

lemma rows_loop_Ok:
  "rows_loop E tr tc ms rows pts = Ok pts' \<Longrightarrow>
     \<forall>row \<in> set rows. ParseFloat E (Sprint E (index_row row tc)) \<noteq> None"
proof (induction rows arbitrary: pts)
  case Nil
  then show ?case by simp
next
  case (Cons row rows)
  from Cons.prems obtain p1 where 1: "row_step E tr tc ms row pts = Ok p1"
    and 2: "rows_loop E tr tc ms rows p1 = Ok pts'"
    by (auto split: result.splits)
  from 1 have "ParseFloat E (Sprint E (index_row row tc)) \<noteq> None"
    using row_step_Ok_iff [of E tr tc ms row pts] by auto
  with Cons.IH [OF 2] show ?case by simp
qed

lemma rows_loop_cases:
  "(\<exists>pts'. rows_loop E tr tc ms rows pts = Ok pts')
   \<or> (\<exists>s. rows_loop E tr tc ms rows pts = Err (CannotParseFloat s))"
proof (cases "rows_loop E tr tc ms rows pts")
  case (Ok pts')
  then show ?thesis by simp
next
  case (Err e)
  from rows_loop_Err [OF this] Err show ?thesis by auto
next
  case (Panic q)
  then show ?thesis using rows_loop_no_panic [of E tr tc ms rows pts q] by simp
qed

lemma buildSeries_Ok_iff:
  assumes "Meta responseJson \<noteq> []"
  shows "(\<exists>series. buildSeries E responseJson timeRange = Ok series) \<longleftrightarrow>
           (\<forall>row \<in> set (Data responseJson).
              ParseFloat E (Sprint E (index_row row (Name (hd (Meta responseJson))))) \<noteq> None)"
proof -
  from assms obtain m0 ms where meta: "Meta responseJson = m0 # ms"
    by (cases "Meta responseJson") auto
  let ?loop = "rows_loop E timeRange (Name m0) (Meta responseJson) (Data responseJson) []"
  have "(\<exists>series. buildSeries E responseJson timeRange = Ok series) \<longleftrightarrow> (\<exists>pts. ?loop = Ok pts)"
    by (cases ?loop) (simp_all add: buildSeries_def meta)
  also have "\<dots> \<longleftrightarrow> (\<forall>row \<in> set (Data responseJson).
      ParseFloat E (Sprint E (index_row row (Name m0))) \<noteq> None)"
  proof
    assume "\<exists>pts. ?loop = Ok pts"
    then obtain pts where "?loop = Ok pts" ..
    then show "\<forall>row \<in> set (Data responseJson).
        ParseFloat E (Sprint E (index_row row (Name m0))) \<noteq> None"
      by (rule rows_loop_Ok)
  next
    assume good: "\<forall>row \<in> set (Data responseJson).
        ParseFloat E (Sprint E (index_row row (Name m0))) \<noteq> None"
    show "\<exists>pts. ?loop = Ok pts"
    proof (cases ?loop)
      case (Ok pts)
      then show ?thesis by simp
    next
      case (Err e)
      from rows_loop_Err [OF this] good show ?thesis by auto
    next
      case (Panic q)
      then show ?thesis
        using rows_loop_no_panic [of E timeRange "Name m0" "Meta responseJson" "Data responseJson" "[]" q]
        by simp
    qed
  qed
  finally show ?thesis
    by (simp add: meta)
qed

text \<open>
  Claim C4.  With some column declared, \<open>buildSeries\<close> returns the error "Cannot parse
  float" (and no series) exactly when the text of the time column of some row of the data
  does not parse as a number, and it returns series exactly when the time of every row
  parses; it returns no other error.  (The time is parsed before the row is tested against
  the time range, so the rows the range leaves out count as well.)
\<close>

theorem buildSeries_fails_iff_time_unparsed:
  assumes "Meta responseJson \<noteq> []"
  shows "((\<exists>s. buildSeries E responseJson timeRange = Err (CannotParseFloat s)) \<longleftrightarrow>
            (\<exists>row \<in> set (Data responseJson).
               ParseFloat E (Sprint E (index_row row (Name (hd (Meta responseJson))))) = None))
         \<and> ((\<exists>series. buildSeries E responseJson timeRange = Ok series) \<longleftrightarrow>
            (\<forall>row \<in> set (Data responseJson).
               ParseFloat E (Sprint E (index_row row (Name (hd (Meta responseJson))))) \<noteq> None))
         \<and> ((\<exists>series. buildSeries E responseJson timeRange = Ok series)
            \<or> (\<exists>s. buildSeries E responseJson timeRange = Err (CannotParseFloat s)))"
proof -
  from assms obtain m0 ms where meta: "Meta responseJson = m0 # ms"
    by (cases "Meta responseJson") auto
  let ?loop = "rows_loop E timeRange (Name m0) (Meta responseJson) (Data responseJson) []"
  have build: "buildSeries E responseJson timeRange =
      (case ?loop of Err e \<Rightarrow> Err e | Panic p \<Rightarrow> Panic p
       | Ok points \<Rightarrow> Ok (map (\<lambda>(metric, values). \<lparr>SeriesName = metric, Points = values\<rparr>) points))"
    by (simp add: buildSeries_def meta)
  have hd: "Name (hd (Meta responseJson)) = Name m0"
    by (simp add: meta)
  from rows_loop_cases [of E timeRange "Name m0" "Meta responseJson" "Data responseJson" "[]"]
  show ?thesis
  proof
    assume "\<exists>pts. ?loop = Ok pts"
    then obtain pts where ok: "?loop = Ok pts" ..
    from rows_loop_Ok [OF ok] ok show ?thesis
      unfolding hd build by simp
  next
    assume "\<exists>s. ?loop = Err (CannotParseFloat s)"
    then obtain s where err: "?loop = Err (CannotParseFloat s)" ..
    from rows_loop_Err [OF err] err show ?thesis
      unfolding hd build by auto
  qed
qed

theorem buildSeries_fails_iff_time_unparsed_witness:
  "Meta response_bad_time \<noteq> []
   \<and> (\<exists>row \<in> set (Data response_bad_time).
         ParseFloat (decimal_extern no_fetch)
           (Sprint (decimal_extern no_fetch) (index_row row (Name (hd (Meta response_bad_time))))) = None)
   \<and> (\<exists>s. buildSeries (decimal_extern no_fetch) response_bad_time None = Err (CannotParseFloat s))
   \<and> \<not> (\<exists>series. buildSeries (decimal_extern no_fetch) response_bad_time None = Ok series)"
proof -
  have h: "Meta response_bad_time \<noteq> []"
    by (simp add: response_bad_time_def t_host_value_def)
  have bad: "\<exists>row \<in> set (Data response_bad_time).
         ParseFloat (decimal_extern no_fetch)
           (Sprint (decimal_extern no_fetch) (index_row row (Name (hd (Meta response_bad_time))))) = None"
    by (simp add: response_bad_time_def t_host_value_def decimal_extern_sel index_row_def
        parse_decimal_examples)
  from buildSeries_fails_iff_time_unparsed [OF h, of "decimal_extern no_fetch" None] h bad
  show ?thesis by blast
qed


subsection \<open>The points of a series only grow\<close>

lemma index_points_update:
  "index_points (AList.update k v pts) k' = (if k' = k then v else index_points pts k')"
  by (simp add: index_points_def update_conv')

lemma point_step_grows:
  "prefix (index_points pts k) (index_points (point_step E tc sc nm t entry pts) k)"
  by (simp add: point_step_def Let_def index_points_update split: option.splits)

lemma fold_point_step_grows:
  "prefix (index_points pts k) (index_points (fold (point_step E tc sc nm t) row pts) k)"
proof (induction row arbitrary: pts)
  case Nil
  then show ?case by simp
next
  case (Cons entry row)
  have "prefix (index_points pts k) (index_points (point_step E tc sc nm t entry pts) k)"
    by (rule point_step_grows)
  also have "prefix \<dots>
      (index_points (fold (point_step E tc sc nm t) row (point_step E tc sc nm t entry pts)) k)"
    by (rule Cons.IH)
  finally show ?case by simp
qed

lemma row_step_grows:
  assumes "row_step E tr tc ms row pts = Ok pts'"
  shows "prefix (index_points pts k) (index_points pts' k)"
proof -
  from assms consider "pts' = pts"
    | t where "pts' = fold (point_step E tc (fst (name_loop E tc row ms))
                              (snd (name_loop E tc row ms)) t) row pts"
    by (auto simp: row_step_def Let_def split: option.splits if_splits)
  then show ?thesis
  proof cases
    case 1
    then show ?thesis by simp
  next
    case 2
    show ?thesis unfolding 2 by (rule fold_point_step_grows)
  qed
qed

lemma rows_loop_grows:
  assumes "rows_loop E tr tc ms rows pts = Ok pts'"
  shows "prefix (index_points pts k) (index_points pts' k)"
  using assms
proof (induction rows arbitrary: pts)
  case Nil
  then show ?case by simp
next
  case (Cons row rows)
  from Cons.prems obtain p1 where 1: "row_step E tr tc ms row pts = Ok p1"
    and 2: "rows_loop E tr tc ms rows p1 = Ok pts'"
    by (auto split: result.splits)
  have "prefix (index_points pts k) (index_points p1 k)"
    using 1 by (rule row_step_grows)
  also have "prefix \<dots> (index_points pts' k)"
    using 2 by (rule Cons.IH)
  finally show ?case .
qed

subsection \<open>The point of an entry\<close>

lemma point_step_adds:
  assumes "c \<noteq> tc" "c \<notin> sc" "ParseFloat E (Sprint E v) = Some x"
  shows "(x, t) \<in> set (index_points (point_step E tc sc nm t (c, v) pts) (nm @ ''.'' @ c))"
  using assms by (simp add: point_step_def Let_def index_points_update)

lemma fold_point_step_adds:
  assumes "(c, v) \<in> set row" "c \<noteq> tc" "c \<notin> sc" "ParseFloat E (Sprint E v) = Some x"
  shows "(x, t) \<in> set (index_points (fold (point_step E tc sc nm t) row pts) (nm @ ''.'' @ c))"
  using assms(1)
proof (induction row arbitrary: pts)
  case Nil
  then show ?case by simp
next
  case (Cons entry row)
  show ?case
  proof (cases "entry = (c, v)")
    case True
    let ?p1 = "point_step E tc sc nm t (c, v) pts"
    have "(x, t) \<in> set (index_points ?p1 (nm @ ''.'' @ c))"
      using assms(2-4) by (rule point_step_adds)
    moreover have "prefix (index_points ?p1 (nm @ ''.'' @ c))
        (index_points (fold (point_step E tc sc nm t) row ?p1) (nm @ ''.'' @ c))"
      by (rule fold_point_step_grows)
    ultimately show ?thesis using True set_mono_prefix by fastforce
  next
    case False
    with Cons.prems have "(c, v) \<in> set row" by simp
    from Cons.IH [OF this] show ?thesis by simp
  qed
qed

lemma name_step_columns:
  "fst (name_step E tc row meta acc) \<subseteq> insert (Name meta) (fst acc)"
  by (auto simp: name_step_def Let_def split: option.splits)

lemma fold_name_step_columns:
  "fst (fold (name_step E tc row) metas acc) \<subseteq> fst acc \<union> Name ` set metas"
proof (induction metas arbitrary: acc)
  case Nil
  then show ?case by simp
next
  case (Cons meta metas)
  have "fst (fold (name_step E tc row) metas (name_step E tc row meta acc))
      \<subseteq> fst (name_step E tc row meta acc) \<union> Name ` set metas"
    by (rule Cons.IH)
  with name_step_columns [of E tc row meta acc] show ?case by auto
qed

lemma name_loop_columns: "fst (name_loop E tc row metas) \<subseteq> Name ` set metas"
  using fold_name_step_columns [of E tc row metas "({}, [])"] by (simp add: name_loop_def)

lemma fold_name_step_cong:
  assumes "\<forall>m \<in> set metas. index_row row' (Name m) = index_row row (Name m)"
  shows "fold (name_step E tc row') metas acc = fold (name_step E tc row) metas acc"
  using assms
proof (induction metas arbitrary: acc)
  case Nil
  then show ?case by simp
next
  case (Cons meta metas)
  then have "name_step E tc row' meta acc = name_step E tc row meta acc"
    by (simp add: name_step_def)
  with Cons show ?case by simp
qed

lemma rows_loop_row_point:
  assumes "rows_loop E tr tc ms rows pts = Ok pts'"
    and "row \<in> set rows"
    and "ParseFloat E (Sprint E (index_row row tc)) = Some t"
    and "\<not> out_of_range E tr t"
    and "(c, v) \<in> set row" "c \<noteq> tc" "c \<notin> fst (name_loop E tc row ms)"
    and "ParseFloat E (Sprint E v) = Some x"
  shows "(x, t) \<in> set (index_points pts' (snd (name_loop E tc row ms) @ ''.'' @ c))"
  using assms(1,2)
proof (induction rows arbitrary: pts)
  case Nil
  then show ?case by simp
next
  case (Cons r rows)
  from Cons.prems(1) obtain p1 where 1: "row_step E tr tc ms r pts = Ok p1"
    and 2: "rows_loop E tr tc ms rows p1 = Ok pts'"
    by (auto split: result.splits)
  let ?k = "snd (name_loop E tc row ms) @ ''.'' @ c"
  show ?case
  proof (cases "r = row")
    case True
    have "p1 = fold (point_step E tc (fst (name_loop E tc row ms))
                       (snd (name_loop E tc row ms)) t) row pts"
      using 1 assms(3,4) by (simp add: row_step_def Let_def True)
    then have "(x, t) \<in> set (index_points p1 ?k)"
      using fold_point_step_adds [OF assms(5-8)] by simp
    moreover have "prefix (index_points p1 ?k) (index_points pts' ?k)"
      using 2 by (rule rows_loop_grows)
    ultimately show ?thesis using set_mono_prefix by fastforce
  next
    case False
    with Cons.prems(2) have "row \<in> set rows" by simp
    from Cons.IH [OF 2 this] show ?thesis .
  qed
qed

lemma index_points_series:
  assumes "p \<in> set (index_points pts k)"
  shows "\<exists>s \<in> set (map (\<lambda>(metric, values). \<lparr>SeriesName = metric, Points = values\<rparr>) pts).
           SeriesName s = k \<and> p \<in> set (Points s)"
proof -
  from assms obtain ps where "map_of pts k = Some ps" and "p \<in> set ps"
    by (cases "map_of pts k") (auto simp: index_points_def)
  then have "(k, ps) \<in> set pts"
    by (auto dest: map_of_SomeD)
  then have "\<lparr>SeriesName = k, Points = ps\<rparr>
      \<in> set (map (\<lambda>(metric, values). \<lparr>SeriesName = metric, Points = values\<rparr>) pts)"
    by force
  with \<open>p \<in> set ps\<close> show ?thesis by force
qed

lemma index_row_update:
  "n \<noteq> c \<Longrightarrow> index_row (AList.update c v row) n = index_row row n"
  by (simp add: index_row_def update_conv')

text \<open>
  Claim C10.  The points of a row come from the entries of the row, not from the declared
  columns.  Let a row that is processed (its time parses and is within the range) hold an
  entry under a name that the metadata does not declare, with a value that parses as a
  number: then the series named by the row's name prefix, a dot and that name holds the
  point of that value at the row's time.  The name prefix itself is built from the declared
  columns only: it stays the same whatever value, numeric or not, the row holds under that
  name.
\<close>

theorem undeclared_column_gives_point:
  assumes meta: "Meta responseJson = meta0 # metas"
    and ok: "buildSeries E responseJson timeRange = Ok series"
    and row: "row \<in> set (Data responseJson)"
    and time: "ParseFloat E (Sprint E (index_row row (Name meta0))) = Some time"
    and range: "\<not> out_of_range E timeRange time"
    and entry: "map_of row columnName = Some columnValue"
    and absent: "columnName \<notin> Name ` set (Meta responseJson)"
    and num: "ParseFloat E (Sprint E columnValue) = Some value"
  shows "(\<exists>s \<in> set series.
            SeriesName s = snd (name_loop E (Name meta0) row (Meta responseJson)) @ ''.'' @ columnName
            \<and> (value, time) \<in> set (Points s))
         \<and> (\<forall>v. name_loop E (Name meta0) (AList.update columnName v row) (Meta responseJson)
                = name_loop E (Name meta0) row (Meta responseJson))"
proof
  let ?tc = "Name meta0"
  let ?acc = "name_loop E ?tc row (Meta responseJson)"
  from ok obtain pts
    where loop: "rows_loop E timeRange ?tc (Meta responseJson) (Data responseJson) [] = Ok pts"
      and series: "series = map (\<lambda>(metric, values). \<lparr>SeriesName = metric, Points = values\<rparr>) pts"
    by (auto simp: buildSeries_def meta split: result.splits)
  have "(columnName, columnValue) \<in> set row"
    using entry by (rule map_of_SomeD)
  moreover have "columnName \<noteq> ?tc"
    using absent meta by auto
  moreover have "columnName \<notin> fst ?acc"
    using name_loop_columns [of E ?tc row "Meta responseJson"] absent by auto
  ultimately have "(value, time) \<in> set (index_points pts (snd ?acc @ ''.'' @ columnName))"
    using num by (rule rows_loop_row_point [OF loop row time range])
  from index_points_series [OF this]
  show "\<exists>s \<in> set series. SeriesName s = snd ?acc @ ''.'' @ columnName \<and> (value, time) \<in> set (Points s)"
    unfolding series .
next
  show "\<forall>v. name_loop E (Name meta0) (AList.update columnName v row) (Meta responseJson)
      = name_loop E (Name meta0) row (Meta responseJson)"
  proof
    fix v
    have "\<forall>m \<in> set (Meta responseJson).
        index_row (AList.update columnName v row) (Name m) = index_row row (Name m)"
      using absent by (auto intro: index_row_update)
    then show "name_loop E (Name meta0) (AList.update columnName v row) (Meta responseJson)
        = name_loop E (Name meta0) row (Meta responseJson)"
      unfolding name_loop_def by (rule fold_name_step_cong)
  qed
qed

lemma buildSeries_extra_column:
  "buildSeries (decimal_extern no_fetch) response_extra_column None =
     Ok [\<lparr>SeriesName = ''.a.value'', Points = [(5, 1000)]\<rparr>,
         \<lparr>SeriesName = ''.a.extra'', Points = [(3, 1000)]\<rparr>]"
  by (simp add: buildSeries_def response_extra_column_def row_with_extra_def t_host_value_def
      row_step_def out_of_range_def name_loop_def name_step_def point_step_def index_row_def
      index_points_def decimal_extern_sel parse_decimal_examples Itoa_examples)

theorem undeclared_column_gives_point_witness:
  "Meta response_extra_column = \<lparr>Name = ''t'', Type = ''UInt64''\<rparr> # tl t_host_value
   \<and> buildSeries (decimal_extern no_fetch) response_extra_column None =
       Ok [\<lparr>SeriesName = ''.a.value'', Points = [(5, 1000)]\<rparr>,
           \<lparr>SeriesName = ''.a.extra'', Points = [(3, 1000)]\<rparr>]
   \<and> row_with_extra \<in> set (Data response_extra_column)
   \<and> map_of row_with_extra ''extra'' = Some (JNumber 3)
   \<and> ''extra'' \<notin> Name ` set (Meta response_extra_column)
   \<and> snd (name_loop (decimal_extern no_fetch) ''t'' row_with_extra (Meta response_extra_column)) = ''.a''
   \<and> (\<exists>s \<in> set [\<lparr>SeriesName = ''.a.value'', Points = [(5, 1000)]\<rparr>,
                   \<lparr>SeriesName = ''.a.extra'', Points = [(3, 1000)]\<rparr>].
          SeriesName s = ''.a.extra'' \<and> (3, 1000) \<in> set (Points s))
   \<and> snd (name_loop (decimal_extern no_fetch) ''t''
             (AList.update ''extra'' (JString ''x'') row_with_extra) (Meta response_extra_column)) = ''.a''"
proof -
  let ?E = "decimal_extern no_fetch"
  let ?m0 = "\<lparr>Name = ''t'', Type = ''UInt64''\<rparr>"
  have meta: "Meta response_extra_column = ?m0 # tl t_host_value"
    by (simp add: response_extra_column_def t_host_value_def)
  have row: "row_with_extra \<in> set (Data response_extra_column)"
    by (simp add: response_extra_column_def)
  have time: "ParseFloat ?E (Sprint ?E (index_row row_with_extra (Name ?m0))) = Some 1000"
    by (simp add: row_with_extra_def index_row_def decimal_extern_sel parse_decimal_examples
        Itoa_examples)
  have range: "\<not> out_of_range ?E None 1000"
    by (simp add: out_of_range_def)
  have entry: "map_of row_with_extra ''extra'' = Some (JNumber 3)"
    by (simp add: row_with_extra_def)
  have absent: "''extra'' \<notin> Name ` set (Meta response_extra_column)"
    by (simp add: response_extra_column_def t_host_value_def)
  have num: "ParseFloat ?E (Sprint ?E (JNumber 3)) = Some 3"
    by (simp add: decimal_extern_sel parse_decimal_examples Itoa_examples)
  have name: "snd (name_loop ?E ''t'' row_with_extra (Meta response_extra_column)) = ''.a''"
    by (simp add: name_loop_def name_step_def response_extra_column_def t_host_value_def
        row_with_extra_def index_row_def decimal_extern_sel parse_decimal_examples Itoa_examples)
  note inst = undeclared_column_gives_point
         [OF meta buildSeries_extra_column row time range entry absent num]
  from inst have point: "\<exists>s \<in> set [\<lparr>SeriesName = ''.a.value'', Points = [(5, 1000)]\<rparr>,
                   \<lparr>SeriesName = ''.a.extra'', Points = [(3, 1000)]\<rparr>].
          SeriesName s = ''.a.extra'' \<and> (3, 1000) \<in> set (Points s)"
    using name by simp
  from inst have "name_loop ?E ''t'' (AList.update ''extra'' (JString ''x'') row_with_extra)
        (Meta response_extra_column) = name_loop ?E ''t'' row_with_extra (Meta response_extra_column)"
    by simp
  with name have other: "snd (name_loop ?E ''t''
      (AList.update ''extra'' (JString ''x'') row_with_extra) (Meta response_extra_column)) = ''.a''"
    by simp
  from meta buildSeries_extra_column row entry absent name point other show ?thesis
    by (intro conjI)
qed

subsection \<open>The table of three rows\<close>

lemma example_row_step:
  assumes "ParseFloat E host = None" "reads_back E t" "reads_back E v"
  shows "row_step E None ''t'' t_host_value (example_row t host v) points =
           Ok (AList.update (''.'' @ host @ ''.value'')
                 (index_points points (''.'' @ host @ ''.value'') @ [(v, t)]) points)"
  using assms
  by (simp add: example_row_def t_host_value_def row_step_def out_of_range_def name_loop_def
      name_step_def point_step_def index_row_def reads_back_def Let_def)

lemma buildSeries_example_table:
  assumes a: "ParseFloat E ''a'' = None" and b: "ParseFloat E ''b'' = None"
    and t1: "reads_back E t1000" and t2: "reads_back E t2000"
    and v5: "reads_back E v5" and v7: "reads_back E v7" and v9: "reads_back E v9"
  shows "buildSeries E (example_table t1000 t2000 v5 v7 v9) None =
           Ok [\<lparr>SeriesName = ''.a.value'', Points = [(v5, t1000), (v9, t2000)]\<rparr>,
               \<lparr>SeriesName = ''.b.value'', Points = [(v7, t1000)]\<rparr>]"
proof -
  have meta: "Meta (example_table t1000 t2000 v5 v7 v9) = t_host_value"
    and data: "Data (example_table t1000 t2000 v5 v7 v9) =
      [example_row t1000 ''a'' v5, example_row t1000 ''b'' v7, example_row t2000 ''a'' v9]"
    by (simp_all add: example_table_def)
  have hd: "t_host_value = \<lparr>Name = ''t'', Type = ''UInt64''\<rparr> # tl t_host_value"
    by (simp add: t_host_value_def)
  have r1: "row_step E None ''t'' t_host_value (example_row t1000 ''a'' v5) []
      = Ok [(''.a.value'', [(v5, t1000)])]"
    by (simp add: example_row_step [OF a t1 v5] index_points_def)
  have r2: "row_step E None ''t'' t_host_value (example_row t1000 ''b'' v7)
        [(''.a.value'', [(v5, t1000)])]
      = Ok [(''.a.value'', [(v5, t1000)]), (''.b.value'', [(v7, t1000)])]"
    by (simp add: example_row_step [OF b t1 v7] index_points_def)
  have r3: "row_step E None ''t'' t_host_value (example_row t2000 ''a'' v9)
        [(''.a.value'', [(v5, t1000)]), (''.b.value'', [(v7, t1000)])]
      = Ok [(''.a.value'', [(v5, t1000), (v9, t2000)]), (''.b.value'', [(v7, t1000)])]"
    by (simp add: example_row_step [OF a t2 v9] index_points_def)
  show ?thesis
    unfolding buildSeries_def meta data
    by (subst hd) (simp add: r1 r2 r3)
qed

lemma decimal_extern_reads:
  "ParseFloat (decimal_extern f) ''a'' = None" "ParseFloat (decimal_extern f) ''b'' = None"
  "reads_back (decimal_extern f) 1000" "reads_back (decimal_extern f) 2000"
  "reads_back (decimal_extern f) 5" "reads_back (decimal_extern f) 7" "reads_back (decimal_extern f) 9"
  by (simp_all add: reads_back_def decimal_extern_sel parse_decimal_examples Itoa_examples)

subsection \<open>The points of a series, row by row\<close>

lemma point_step_points:
  "index_points (point_step E tc sc nm t entry pts) k
     = index_points pts k @ entry_points E tc sc nm t k entry"
  by (auto simp: point_step_def entry_points_def Let_def index_points_update split: option.splits)

lemma fold_point_step_points:
  "index_points (fold (point_step E tc sc nm t) row pts) k
     = index_points pts k @ concat (map (entry_points E tc sc nm t k) row)"
  by (induction row arbitrary: pts) (simp_all add: point_step_points)

lemma row_step_points:
  assumes "row_step E tr tc ms row pts = Ok pts'"
  shows "index_points pts' k = index_points pts k @ row_points E tr tc ms k row"
proof (cases "ParseFloat E (Sprint E (index_row row tc))")
  case None
  with assms show ?thesis by (simp add: row_step_def)
next
  case (Some t)
  with assms show ?thesis
    by (auto simp: row_step_def row_points_def Let_def fold_point_step_points split: if_splits)
qed

text \<open>
  In a run that succeeds, the points of the series \<open>k\<close> are what the rows add to it, row
  after row: they accumulate in the order in which the rows arrive.
\<close>

lemma rows_loop_points:
  assumes "rows_loop E tr tc ms rows pts = Ok pts'"
  shows "index_points pts' k = index_points pts k @ concat (map (row_points E tr tc ms k) rows)"
  using assms
proof (induction rows arbitrary: pts)
  case Nil
  then show ?case by simp
next
  case (Cons row rows)
  from Cons.prems obtain p1 where 1: "row_step E tr tc ms row pts = Ok p1"
    and 2: "rows_loop E tr tc ms rows p1 = Ok pts'"
    by (auto split: result.splits)
  from row_step_points [OF 1, of k] Cons.IH [OF 2] show ?case by simp
qed

subsection \<open>The keys of the map of points\<close>

lemma set_update_subset: "set (AList.update k v al) \<subseteq> insert (k, v) (set al)"
proof (induction al)
  case Nil
  then show ?case by simp
next
  case (Cons e al)
  then show ?case by (cases e) auto
qed

lemma tidy_update:
  assumes "tidy pts" and "ps \<noteq> []"
  shows "tidy (AList.update k ps pts)"
proof -
  have "snd ` set (AList.update k ps pts) \<subseteq> insert ps (snd ` set pts)"
    using set_update_subset [of k ps pts] by auto
  with assms have "[] \<notin> snd ` set (AList.update k ps pts)"
    by (auto simp: tidy_def)
  with assms(1) show ?thesis
    by (simp add: tidy_def distinct_update)
qed

lemma point_step_tidy: "tidy pts \<Longrightarrow> tidy (point_step E tc sc nm t entry pts)"
  by (simp add: point_step_def Let_def tidy_update split: option.splits)

lemma fold_point_step_tidy: "tidy pts \<Longrightarrow> tidy (fold (point_step E tc sc nm t) row pts)"
  by (induction row arbitrary: pts) (simp_all add: point_step_tidy)

lemma row_step_tidy: "row_step E tr tc ms row pts = Ok pts' \<Longrightarrow> tidy pts \<Longrightarrow> tidy pts'"
  by (auto simp: row_step_def Let_def fold_point_step_tidy split: option.splits if_splits)

lemma rows_loop_tidy: "rows_loop E tr tc ms rows pts = Ok pts' \<Longrightarrow> tidy pts \<Longrightarrow> tidy pts'"
proof (induction rows arbitrary: pts)
  case Nil
  then show ?case by simp
next
  case (Cons row rows)
  from Cons.prems(1) obtain p1 where 1: "row_step E tr tc ms row pts = Ok p1"
    and 2: "rows_loop E tr tc ms rows p1 = Ok pts'"
    by (auto split: result.splits)
  from row_step_tidy [OF 1 Cons.prems(2)] have "tidy p1" .
  from Cons.IH [OF 2 this] show ?case .
qed

text \<open>The entries of a tidy map are its keys with points, each with all its points.\<close>

lemma tidy_entries:
  assumes "tidy pts"
  shows "set pts = {(k, index_points pts k) | k. index_points pts k \<noteq> []}"
proof (intro set_eqI iffI)
  fix e
  assume e: "e \<in> set pts"
  obtain k ps where kp: "e = (k, ps)" by (cases e)
  with e assms have "map_of pts k = Some ps" and "ps \<noteq> []"
    by (force simp: tidy_def)+
  then show "e \<in> {(k, index_points pts k) | k. index_points pts k \<noteq> []}"
    using kp by (auto simp: index_points_def)
next
  fix e
  assume "e \<in> {(k, index_points pts k) | k. index_points pts k \<noteq> []}"
  then obtain k where k: "e = (k, index_points pts k)" and ne: "index_points pts k \<noteq> []"
    by blast
  from ne obtain ps where "map_of pts k = Some ps"
    by (cases "map_of pts k") (auto simp: index_points_def)
  then have "(k, ps) \<in> set pts" and "index_points pts k = ps"
    by (auto simp: index_points_def dest: map_of_SomeD)
  with k show "e \<in> set pts" by simp
qed

subsection \<open>The order of the entries of a row does not matter\<close>

lemma entry_points_other:
  "k \<noteq> nm @ ''.'' @ fst entry \<Longrightarrow> entry_points E tc sc nm t k entry = []"
  by (simp add: entry_points_def)

lemma concat_entry_points:
  assumes "distinct (map fst row)"
  shows "concat (map (entry_points E tc sc nm t k) row) =
           (case map_of row (drop (Suc (length nm)) k) of
              None \<Rightarrow> []
            | Some v \<Rightarrow> entry_points E tc sc nm t k (drop (Suc (length nm)) k, v))"
  using assms
proof (induction row)
  case Nil
  then show ?case by simp
next
  case (Cons e row)
  obtain c v where e: "e = (c, v)" by (cases e)
  let ?c = "drop (Suc (length nm)) k"
  show ?case
  proof (cases "c = ?c")
    case True
    with Cons.prems e have "map_of row ?c = None"
      by (auto simp: map_of_eq_None_iff)
    with Cons e True show ?thesis by simp
  next
    case False
    have "k \<noteq> nm @ ''.'' @ c"
    proof
      assume "k = nm @ ''.'' @ c"
      then have "?c = c" by simp
      with False show False by simp
    qed
    then have "entry_points E tc sc nm t k (c, v) = []"
      by (simp add: entry_points_other)
    with Cons e False show ?thesis by simp
  qed
qed

lemma same_row_index: "same_row r r' \<Longrightarrow> index_row r n = index_row r' n"
  by (simp add: same_row_def index_row_def)

lemma same_row_name_loop: "same_row r r' \<Longrightarrow> name_loop E tc r ms = name_loop E tc r' ms"
  unfolding name_loop_def by (rule fold_name_step_cong) (simp add: same_row_index)

lemma same_row_points:
  assumes "same_row r r'"
  shows "row_points E tr tc ms k r = row_points E tr tc ms k r'"
proof (cases "ParseFloat E (Sprint E (index_row r' tc))")
  case None
  then show ?thesis
    by (simp add: row_points_def same_row_index [OF assms])
next
  case (Some t)
  from assms have m: "map_of r = map_of r'"
    and d: "distinct (map fst r)" and d': "distinct (map fst r')"
    by (simp_all add: same_row_def)
  have "concat (map (entry_points E tc sc nm t k) r) = concat (map (entry_points E tc sc nm t k) r')"
    for sc nm
    by (simp add: concat_entry_points [OF d] concat_entry_points [OF d'] m)
  with Some show ?thesis
    by (simp add: row_points_def Let_def same_row_index [OF assms] same_row_name_loop [OF assms])
qed

lemma same_rows_time:
  assumes "list_all2 same_row rows rows'"
  shows "(\<forall>row \<in> set rows. ParseFloat E (Sprint E (index_row row tc)) \<noteq> None)
     \<longleftrightarrow> (\<forall>row \<in> set rows'. ParseFloat E (Sprint E (index_row row tc)) \<noteq> None)"
  using assms
  by (induction rows rows' rule: list_all2_induct) (simp_all add: same_row_index)

lemma same_rows_points:
  assumes "list_all2 same_row rows rows'"
  shows "concat (map (row_points E tr tc ms k) rows) = concat (map (row_points E tr tc ms k) rows')"
  using assms
  by (induction rows rows' rule: list_all2_induct) (simp_all add: same_row_points)

text \<open>
  The series that \<open>buildSeries\<close> returns are determined by the rows as maps: with the entries
  of the rows in another order, \<open>buildSeries\<close> returns the same set of series, each once.
\<close>

lemma buildSeries_set:
  assumes "buildSeries E responseJson timeRange = Ok series"
  shows "distinct (map SeriesName series)
     \<and> set series =
         {\<lparr>SeriesName = k,
            Points = concat (map (row_points E timeRange (Name (hd (Meta responseJson)))
                                    (Meta responseJson) k) (Data responseJson))\<rparr>
          | k. concat (map (row_points E timeRange (Name (hd (Meta responseJson)))
                              (Meta responseJson) k) (Data responseJson)) \<noteq> []}"
proof -
  from assms obtain m0 ms where meta: "Meta responseJson = m0 # ms"
    by (cases "Meta responseJson") (auto simp: buildSeries_def)
  let ?tc = "Name m0"
  let ?mk = "\<lambda>(metric, values). \<lparr>SeriesName = metric, Points = values\<rparr>"
  from assms obtain pts
    where loop: "rows_loop E timeRange ?tc (Meta responseJson) (Data responseJson) [] = Ok pts"
      and series: "series = map ?mk pts"
    by (auto simp: buildSeries_def meta split: result.splits)
  have "tidy ([] :: 'a points_map)"
    by (simp add: tidy_def)
  from rows_loop_tidy [OF loop this] have tidy: "tidy pts" .
  have pts: "index_points pts k
      = concat (map (row_points E timeRange ?tc (Meta responseJson) k) (Data responseJson))" for k
    using rows_loop_points [OF loop, of k] by (simp add: index_points_def)
  have names: "map SeriesName series = map fst pts"
    unfolding series by (induction pts) auto
  have "set series = ?mk ` set pts"
    unfolding series by simp
  also have "\<dots> = ?mk ` {(k, index_points pts k) | k. index_points pts k \<noteq> []}"
    using tidy_entries [OF tidy] by simp
  also have "\<dots> = {\<lparr>SeriesName = k, Points = index_points pts k\<rparr> | k. index_points pts k \<noteq> []}"
    by auto
  finally show ?thesis
    using tidy by (simp add: names tidy_def pts meta)
qed

lemma buildSeries_same_rows:
  assumes "Meta resp' = Meta resp" and "list_all2 same_row (Data resp) (Data resp')"
    and "buildSeries E resp timeRange = Ok series"
  shows "\<exists>series'. buildSeries E resp' timeRange = Ok series'
           \<and> set series' = set series \<and> length series' = length series"
proof -
  from assms(3) have ne: "Meta resp \<noteq> []"
    by (auto simp: buildSeries_def)
  have "\<forall>row \<in> set (Data resp). ParseFloat E (Sprint E (index_row row (Name (hd (Meta resp))))) \<noteq> None"
    using buildSeries_Ok_iff [OF ne, of E timeRange] assms(3) by blast
  then have "\<forall>row \<in> set (Data resp'). ParseFloat E (Sprint E (index_row row (Name (hd (Meta resp'))))) \<noteq> None"
    using same_rows_time [OF assms(2)] assms(1) by simp
  moreover from ne assms(1) have "Meta resp' \<noteq> []" by simp
  ultimately obtain series' where s': "buildSeries E resp' timeRange = Ok series'"
    using buildSeries_Ok_iff [of resp' E timeRange] by blast
  from buildSeries_set [OF assms(3)] buildSeries_set [OF s']
  have d: "distinct (map SeriesName series)" and d': "distinct (map SeriesName series')"
    and eq: "set series' = set series"
    by (simp_all add: assms(1) same_rows_points [OF assms(2)])
  from d d' have "distinct series" and "distinct series'"
    by (auto simp: distinct_map)
  then have "length series' = length series"
    using eq by (metis distinct_card)
  with s' eq show ?thesis by simp
qed

subsection \<open>The table of three rows, in any order of the entries\<close>

text \<open>
  Claim C5.  For the table with the columns \<open>t\<close>, \<open>host\<close>, \<open>value\<close> and the rows
  \<open>(1000, a, 5)\<close>, \<open>(1000, b, 7)\<close>, \<open>(2000, a, 9)\<close>, and no time range, \<open>buildSeries\<close>
  returns exactly two series: \<^verbatim>\<open>.a.value\<close> with the points \<open>(5, 1000)\<close>, \<open>(9, 2000)\<close> in
  this order, and \<^verbatim>\<open>.b.value\<close> with the point \<open>(7, 1000)\<close>.  This holds for any numbers
  in the cells that are printed and read back unchanged, with a library that reads no
  number from the texts \<open>a\<close> and \<open>b\<close>, and in whatever order the entries of each row are
  visited; the order of the two series in the result is left open.
\<close>

theorem buildSeries_three_rows:
  assumes a: "ParseFloat E ''a'' = None" and b: "ParseFloat E ''b'' = None"
    and t1: "reads_back E t1000" and t2: "reads_back E t2000"
    and v5: "reads_back E v5" and v7: "reads_back E v7" and v9: "reads_back E v9"
    and meta: "Meta responseJson = t_host_value"
    and rows: "list_all2 same_row
                 [example_row t1000 ''a'' v5, example_row t1000 ''b'' v7, example_row t2000 ''a'' v9]
                 (Data responseJson)"
  shows "\<exists>series. buildSeries E responseJson None = Ok series
           \<and> length series = 2
           \<and> set series = {\<lparr>SeriesName = ''.a.value'', Points = [(v5, t1000), (v9, t2000)]\<rparr>,
                            \<lparr>SeriesName = ''.b.value'', Points = [(v7, t1000)]\<rparr>}"
proof -
  let ?table = "example_table t1000 t2000 v5 v7 v9"
  have m: "Meta responseJson = Meta ?table"
    by (simp add: meta example_table_def)
  have r: "list_all2 same_row (Data ?table) (Data responseJson)"
    using rows by (simp add: example_table_def)
  from buildSeries_same_rows [OF m r buildSeries_example_table [OF a b t1 t2 v5 v7 v9]]
  obtain series where ok: "buildSeries E responseJson None = Ok series"
    and set: "set series = {\<lparr>SeriesName = ''.a.value'', Points = [(v5, t1000), (v9, t2000)]\<rparr>,
                            \<lparr>SeriesName = ''.b.value'', Points = [(v7, t1000)]\<rparr>}"
    and len: "length series = Suc (Suc 0)"
    by auto
  from len have "length series = 2"
    by simp
  with ok set show ?thesis
    by (intro exI conjI)
qed

theorem buildSeries_three_rows_witness:
  "ParseFloat (decimal_extern no_fetch) ''a'' = None
   \<and> ParseFloat (decimal_extern no_fetch) ''b'' = None
   \<and> reads_back (decimal_extern no_fetch) 1000 \<and> reads_back (decimal_extern no_fetch) 2000
   \<and> reads_back (decimal_extern no_fetch) 5 \<and> reads_back (decimal_extern no_fetch) 7
   \<and> reads_back (decimal_extern no_fetch) 9
   \<and> Meta shuffled_table = t_host_value
   \<and> list_all2 same_row
        [example_row 1000 ''a'' 5, example_row 1000 ''b'' 7, example_row 2000 ''a'' 9]
        (Data shuffled_table)
   \<and> (\<exists>series. buildSeries (decimal_extern no_fetch) shuffled_table None = Ok series
         \<and> length series = 2
         \<and> set series = {\<lparr>SeriesName = ''.a.value'', Points = [(5, 1000), (9, 2000)]\<rparr>,
                          \<lparr>SeriesName = ''.b.value'', Points = [(7, 1000)]\<rparr>})"
proof -
  note h = decimal_extern_reads [of no_fetch]
  have meta: "Meta shuffled_table = t_host_value"
    by (simp add: shuffled_table_def)
  have same: "same_row (example_row t h v) [(''value'', JNumber v), (''t'', JNumber t), (''host'', JString h)]"
    for t v :: int and h
    by (auto simp: same_row_def example_row_def)
  have rows: "list_all2 same_row
        [example_row 1000 ''a'' 5, example_row 1000 ''b'' 7, example_row 2000 ''a'' 9]
        (Data shuffled_table)"
    by (simp add: shuffled_table_def same)
  from h meta rows buildSeries_three_rows [OF h meta rows] show ?thesis
    by (intro conjI)
qed

section \<open>The orchestrator\<close>

lemma executeQuery_no_Err: "executeQuery E now query timeRange \<noteq> Err e"
  by (simp add: executeQuery_def Let_def split: result.splits sum.splits)

lemma Query_loop_no_Err: "Query_loop E now timeRange queries results \<noteq> Err e"
proof (induction queries arbitrary: results)
  case Nil
  then show ?case by simp
next
  case (Cons query queries)
  then show ?case
    using executeQuery_no_Err [of E now query timeRange]
    by (cases "executeQuery E now query timeRange") auto
qed

text \<open>A batch in which no query panics has one entry for each \<open>RefId\<close>.\<close>

lemma Query_loop_dom:
  "Query_loop E now timeRange queries results = Ok results' \<Longrightarrow>
     dom results' = dom results \<union> RefId ` set queries"
proof (induction queries arbitrary: results)
  case Nil
  then show ?case by simp
next
  case (Cons query queries)
  from Cons.prems obtain r where "executeQuery E now query timeRange = Ok r"
    and "Query_loop E now timeRange queries (results(RefId query \<mapsto> r)) = Ok results'"
    by (auto split: result.splits)
  from Cons.IH [OF this(2)] show ?case by auto
qed

text \<open>With distinct \<open>RefId\<close>s, the entry of a query is the result of that query alone.\<close>

lemma Query_loop_entry:
  assumes "Query_loop E now timeRange queries results = Ok results'"
    and "distinct (map RefId queries)"
    and "query \<in> set queries"
  shows "executeQuery E now query timeRange = Ok (the (results' (RefId query)))
         \<and> RefId query \<in> dom results'"
  using assms
proof (induction queries arbitrary: results)
  case Nil
  then show ?case by simp
next
  case (Cons q queries)
  from Cons.prems(1) obtain r where r: "executeQuery E now q timeRange = Ok r"
    and rest: "Query_loop E now timeRange queries (results(RefId q \<mapsto> r)) = Ok results'"
    by (auto split: result.splits)
  show ?case
  proof (cases "query = q")
    case True
    have keep: "Query_loop E now timeRange qs rs = Ok rs' \<Longrightarrow> k \<notin> RefId ` set qs \<Longrightarrow> rs' k = rs k"
      for qs rs rs' k
    proof (induction qs arbitrary: rs)
      case Nil
      then show ?case by simp
    next
      case (Cons x xs)
      from Cons.prems(1) obtain y where "Query_loop E now timeRange xs (rs(RefId x \<mapsto> y)) = Ok rs'"
        by (auto split: result.splits)
      from Cons.IH [OF this] Cons.prems(2) show ?case by simp
    qed
    from Cons.prems(2) have "RefId q \<notin> RefId ` set queries"
      by simp
    from keep [OF rest this] have "results' (RefId q) = Some r"
      by simp
    with r True show ?thesis by auto
  next
    case False
    with Cons.prems have "distinct (map RefId queries)" and "query \<in> set queries"
      by simp_all
    from Cons.IH [OF rest this] show ?thesis .
  qed
qed

lemma Query_dom:
  "Query E now tsdbQuery = Ok results \<Longrightarrow> dom results = RefId ` set (Queries tsdbQuery)"
  using Query_loop_dom [of E now "TimeRange tsdbQuery" "Queries tsdbQuery" Map.empty results]
  by (simp add: Query_def)

lemma Parse_query_A: "Parse now (Model query_A) timeRange = Panic IndexOutOfRange"
proof -
  have t: "TrimSpace ''SELECT $interval'' = ''SELECT $interval''"
    by code_simp
  have m: "MatchString (literal ''$interval'') ''SELECT $interval''"
    by code_simp
  have i: "IntervalToSeconds ''abc'' = Panic IndexOutOfRange"
    by code_simp
  show ?thesis
    by (simp add: Parse_def substitutions_def ParseInterval_def GetInterval_def
        String_or_zero_def query_A_def empty_model_def t m i)
qed

lemma executeQuery_query_B:
  "executeQuery (decimal_extern table_fetch) 1000000 query_B None =
     Ok \<lparr>Error = None,
         Series = [\<lparr>SeriesName = ''.a.value'', Points = [(5, 1000), (9, 2000)]\<rparr>,
                   \<lparr>SeriesName = ''.b.value'', Points = [(7, 1000)]\<rparr>]\<rparr>"
proof -
  have p: "Parse 1000000 (Model query_B) None = Ok ''SELECT 1''"
    unfolding query_B_def empty_model_def by code_simp
  have f: "get_format (Model query_B) = None"
    by (simp add: query_B_def empty_model_def)
  show ?thesis
    by (simp add: executeQuery_def p f decimal_extern_sel table_fetch_def
        buildSeries_example_table [OF decimal_extern_reads])
qed

text \<open>
  Claim C7.  Every failure of a query is meant to end in that query's own result, so that
  \<open>Results\<close> has an entry for each query of the batch.  That holds for the errors that
  \<open>executeQuery\<close> returns.  It does not hold for the batch of \<open>A\<close>, whose interval \<^verbatim>\<open>abc\<close>
  is no interval expression, and \<open>B\<close>, which is well formed and gives two series when it is
  run alone: \<open>IntervalToSeconds\<close> panics in \<open>A\<close> (the defect of claim C1), nothing recovers
  the panic, and \<open>Query\<close> returns no \<open>Results\<close> at all, whatever the library and the transport
  do.
\<close>

theorem Query_aborts_on_panicking_query:
  "Query E now \<lparr>TimeRange = timeRange, Queries = [query_A, query_B]\<rparr> = Panic IndexOutOfRange
   \<and> (\<exists>results. Query (decimal_extern table_fetch) 1000000 \<lparr>TimeRange = None, Queries = [query_B]\<rparr>
                    = Ok results
          \<and> results ''B'' =
              Some \<lparr>Error = None,
                    Series = [\<lparr>SeriesName = ''.a.value'', Points = [(5, 1000), (9, 2000)]\<rparr>,
                              \<lparr>SeriesName = ''.b.value'', Points = [(7, 1000)]\<rparr>]\<rparr>)"
proof
  show "Query E now \<lparr>TimeRange = timeRange, Queries = [query_A, query_B]\<rparr> = Panic IndexOutOfRange"
    by (simp add: Query_def executeQuery_def Parse_query_A)
next
  have "RefId query_B = ''B''"
    by (simp add: query_B_def)
  then show "\<exists>results. Query (decimal_extern table_fetch) 1000000 \<lparr>TimeRange = None, Queries = [query_B]\<rparr>
                    = Ok results
          \<and> results ''B'' =
              Some \<lparr>Error = None,
                    Series = [\<lparr>SeriesName = ''.a.value'', Points = [(5, 1000), (9, 2000)]\<rparr>,
                              \<lparr>SeriesName = ''.b.value'', Points = [(7, 1000)]\<rparr>]\<rparr>"
    by (simp add: Query_def executeQuery_query_B)
qed

end
